theory Spec2Isabelle
  imports Complex_Main "HOL-Library.AList"
begin

section \<open>Values, errors and the environment\<close>

text \<open>
  The script \<open>plot_(co)spectras.py\<close> reads EddyPro output tables, selects the raw-file
  names whose CO2 flux has Foken flag 0, merges the (co)spectra of these files into two
  tables and plots their per-row median with a lowess fit.

  Floating point numbers are idealised as real numbers. A table cell is a number, a text
  or the missing value (NaN).
\<close>

datatype cell = Num real | Str string | NaN

text \<open>
  Every exception the script can meet is a value. \<open>IndexError\<close> is the one raised by
  \<open>glob(...)[0]\<close> on an empty list; \<open>SubscriptError\<close> stands for the exception
  raised by slicing a value that is not a string; \<open>NotModelled\<close> marks the files on
  which the behaviour of the csv reader is not described here (a data line longer than the
  header line, a header that repeats a name).
\<close>

datatype error =
    IndexError
  | KeyError string
  | NameError string
  | FileNotFoundError
  | EmptyDataError
  | ValueError
  | SubscriptError
  | SmootherError
  | NotModelled

definition ebind :: "error + 'a \<Rightarrow> ('a \<Rightarrow> error + 'b) \<Rightarrow> error + 'b" where
  "ebind m k = (case m of Inl err \<Rightarrow> Inl err | Inr x \<Rightarrow> k x)"

text \<open>
  The environment of a run: what \<open>glob\<close> returns for a path pattern (the matching
  paths, in the order the library yields them), the lines of every file, each line split
  into its fields, and the reading of one data field as a cell (a number, a text, or
  missing for an empty field or a default missing marker), which is the csv reader's own
  business.
\<close>

record env =
  glob :: "string \<Rightarrow> string list"
  file_lines :: "string \<Rightarrow> string list list option"
  as_cell :: "string \<Rightarrow> cell"

section \<open>Data frames\<close>

text \<open>
  A data frame is a list of row labels (the index) and named columns, each column holding
  one cell per label. A series is one column together with the index.
\<close>

record frame =
  index :: "cell list"
  columns :: "(string \<times> cell list) list"

type_synonym series = "cell list \<times> cell list"

definition empty_frame :: frame where
  "empty_frame = \<lparr>index = [], columns = []\<rparr>"

definition select :: "bool list \<Rightarrow> 'a list \<Rightarrow> 'a list" where
  "select keep xs = map snd (filter fst (zip keep xs))"

definition select_rows :: "bool list \<Rightarrow> frame \<Rightarrow> frame" where
  "select_rows keep df =
     \<lparr>index = select keep (index df),
      columns = map (\<lambda>(name, vs). (name, select keep vs)) (columns df)\<rparr>"

text \<open>\<open>df[name]\<close>: the column of that name, \<open>KeyError\<close> when there is none.\<close>

definition getitem :: "frame \<Rightarrow> string \<Rightarrow> error + series" where
  "getitem df name =
     (case map_of (columns df) name of
        None \<Rightarrow> Inl (KeyError name)
      | Some vs \<Rightarrow> Inr (index df, vs))"

text \<open>
  \<open>df.query('name == 0')\<close>: the rows whose cell in that column is the number 0. A
  text and a missing value are not equal to 0. An unknown name is an undefined variable
  of the query expression.
\<close>

definition query_eq0 :: "frame \<Rightarrow> string \<Rightarrow> error + frame" where
  "query_eq0 df name =
     (case map_of (columns df) name of
        None \<Rightarrow> Inl (NameError name)
      | Some vs \<Rightarrow> Inr (select_rows (map (\<lambda>c. c = Num 0) vs) df))"

text \<open>\<open>df.dropna()\<close>: the rows that hold no missing value in any column.\<close>

definition row_at :: "frame \<Rightarrow> nat \<Rightarrow> cell list" where
  "row_at df i = map (\<lambda>(name, vs). vs ! i) (columns df)"

definition dropna :: "frame \<Rightarrow> frame" where
  "dropna df =
     select_rows (map (\<lambda>i. list_all (\<lambda>c. c \<noteq> NaN) (row_at df i)) [0..<length (index df)]) df"

section \<open>The csv reader\<close>

text \<open>
  \<open>pd.read_csv(path, skiprows=..., index_col=..., na_values=...)\<close> as the script uses
  it. \<open>skiprows\<close> is a number of leading lines or a list of line numbers; blank lines
  left after that are skipped; the first line left is the header and the others are data.
  A data line shorter than the header is filled with missing values. With
  \<open>na_values\<close>, a cell whose value is that number is missing. With \<open>index_col=0\<close>
  the first column is the index; without, the rows are numbered from 0.
\<close>

datatype skiprows = SkipFirst nat | SkipLines "nat list"

fun apply_skiprows :: "skiprows \<Rightarrow> 'a list \<Rightarrow> 'a list" where
  "apply_skiprows (SkipFirst n) ls = drop n ls"
| "apply_skiprows (SkipLines ns) ls =
     map snd (filter (\<lambda>(i, l). \<not> List.member ns i) (enumerate 0 ls))"

definition na_filter :: "real option \<Rightarrow> cell \<Rightarrow> cell" where
  "na_filter na_values c =
     (case na_values of
        None \<Rightarrow> c
      | Some sentinel \<Rightarrow> (if c = Num sentinel then NaN else c))"

definition read_row :: "env \<Rightarrow> real option \<Rightarrow> nat \<Rightarrow> string list \<Rightarrow> cell list" where
  "read_row e na_values width flds =
     map (\<lambda>s. na_filter na_values (as_cell e s)) flds @ replicate (width - length flds) NaN"

definition column_of :: "cell list list \<Rightarrow> nat \<Rightarrow> cell list" where
  "column_of rows j = map (\<lambda>r. r ! j) rows"

definition read_csv :: "env \<Rightarrow> string \<Rightarrow> skiprows \<Rightarrow> bool \<Rightarrow> real option \<Rightarrow> error + frame" where
  "read_csv e path skip index_col0 na_values =
     (case file_lines e path of
        None \<Rightarrow> Inl FileNotFoundError
      | Some ls \<Rightarrow>
          (case filter (\<lambda>l. l \<noteq> []) (apply_skiprows skip ls) of
             [] \<Rightarrow> Inl EmptyDataError
           | header # body \<Rightarrow>
               if \<not> distinct header \<or> list_ex (\<lambda>r. length header < length r) body
               then Inl NotModelled
               else
                 let rows = map (read_row e na_values (length header)) body
                 in if index_col0
                    then Inr \<lparr>index = column_of rows 0,
                              columns = map (\<lambda>j. (header ! j, column_of rows j)) [1..<length header]\<rparr>
                    else Inr \<lparr>index = map (\<lambda>i. Num (real i)) [0..<length rows],
                              columns = map (\<lambda>j. (header ! j, column_of rows j)) [0..<length header]\<rparr>))"

section \<open>get_good_files\<close>

text \<open>
  The first path matching \<open>{ep_output_folder}/**full_output*.csv*\<close> is read with lines
  0 and 2 skipped, the rows with \<open>qc_co2_flux == 0\<close> are kept, and the values of their
  \<open>filename\<close> column are returned.
\<close>

definition get_good_files :: "env \<Rightarrow> string \<Rightarrow> error + cell list" where
  "get_good_files e ep_output_folder =
     (case glob e (ep_output_folder @ ''/**full_output*.csv*'') of
        [] \<Rightarrow> Inl IndexError
      | full_output_file # _ \<Rightarrow>
          ebind (read_csv e full_output_file (SkipLines [0, 2]) False None) (\<lambda>df.
          ebind (query_eq0 df ''qc_co2_flux'') (\<lambda>df.
          ebind (getitem df ''filename'') (\<lambda>s. Inr (snd s)))))"

section \<open>merge_good_files\<close>

text \<open>
  A Python slice \<open>xs[start:stop]\<close>: a negative bound counts from the end, and both
  bounds are clamped to the length.
\<close>

definition py_slice :: "'a list \<Rightarrow> int \<Rightarrow> int \<Rightarrow> 'a list" where
  "py_slice xs start stop =
     (let n = int (length xs);
          lo = (if start < 0 then max 0 (start + n) else min start n);
          hi = (if stop < 0 then max 0 (stop + n) else min stop n)
      in take (nat (hi - lo)) (drop (nat lo) xs))"

text \<open>\<open>pattern = f'{f[5:13]}-{f[-8:-4]}'\<close>\<close>

definition pattern :: "string \<Rightarrow> string" where
  "pattern f = py_slice f 5 13 @ ''-'' @ py_slice f (- 8) (- 4)"

text \<open>The glob pattern searched for one raw file name.\<close>

definition cospectra_glob :: "string \<Rightarrow> string \<Rightarrow> string" where
  "cospectra_glob ep_output_folder f =
     ep_output_folder @ ''/eddypro_full_cospectra/*'' @ pattern f @ ''*.csv''"

text \<open>
  \<open>frame[name] = series\<close>. A frame with an empty index takes the index of the series
  (its columns, empty until then, are filled with missing values). Otherwise the values
  are taken as they are when the series has the index of the frame, and are looked up
  label by label when it has not: a label of the frame that the series does not have gets
  a missing value, and a series with a repeated label cannot be looked up
  (\<open>ValueError\<close>). A column of that name is replaced in place; a new one comes last.
\<close>

definition reindex :: "series \<Rightarrow> cell list \<Rightarrow> cell list" where
  "reindex s idx =
     map (\<lambda>k. case map_of (zip (fst s) (snd s)) k of None \<Rightarrow> NaN | Some v \<Rightarrow> v) idx"

definition setitem :: "frame \<Rightarrow> string \<Rightarrow> series \<Rightarrow> error + frame" where
  "setitem df name s =
     (if index df = []
      then Inr \<lparr>index = fst s,
                columns = AList.update name (snd s)
                  (map (\<lambda>(n, vs). (n, replicate (length (fst s)) NaN)) (columns df))\<rparr>
      else if fst s = index df
      then Inr (df\<lparr>columns := AList.update name (snd s) (columns df)\<rparr>)
      else if \<not> distinct (fst s) then Inl ValueError
      else Inr (df\<lparr>columns := AList.update name (reindex s (index df)) (columns df)\<rparr>))"

text \<open>
  One turn of the loop over \<open>good_files\<close>, on the pair of tables built so far. The
  slices of a value that is not a string raise; an empty glob result is the
  \<open>IndexError\<close> that the loop catches, and the file name is skipped.
\<close>

definition merge_step :: "env \<Rightarrow> string \<Rightarrow> frame \<times> frame \<Rightarrow> cell \<Rightarrow> error + frame \<times> frame" where
  "merge_step e ep_output_folder acc fc =
     (case fc of
        Str f \<Rightarrow>
          (case glob e (cospectra_glob ep_output_folder f) of
             [] \<Rightarrow> Inr acc
           | full_sectra_file # _ \<Rightarrow>
               ebind (read_csv e full_sectra_file (SkipFirst 12) True (Some (- 9999))) (\<lambda>df.
               let df = dropna df in
               ebind (getitem df ''f_nat*spec(ts)'') (\<lambda>s.
               ebind (setitem (fst acc) (pattern f) s) (\<lambda>good_spectras.
               ebind (getitem df ''f_nat*cospec(w_ts)'') (\<lambda>c.
               ebind (setitem (snd acc) (pattern f) c) (\<lambda>good_cospectras.
               Inr (good_spectras, good_cospectras)))))))
      | _ \<Rightarrow> Inl SubscriptError)"

fun merge_loop :: "env \<Rightarrow> string \<Rightarrow> cell list \<Rightarrow> frame \<times> frame \<Rightarrow> error + frame \<times> frame" where
  "merge_loop e ep_output_folder [] acc = Inr acc"
| "merge_loop e ep_output_folder (f # fs) acc =
     ebind (merge_step e ep_output_folder acc f) (merge_loop e ep_output_folder fs)"

definition merge_good_files :: "env \<Rightarrow> cell list \<Rightarrow> string \<Rightarrow> error + frame \<times> frame" where
  "merge_good_files e good_files ep_output_folder =
     merge_loop e ep_output_folder good_files (empty_frame, empty_frame)"

section \<open>The plots\<close>

text \<open>
  \<open>df.median(axis=1)\<close>: for every row the median of its numbers, missing values left
  out, and a missing value for a row that holds no number. The median of an even number
  of values is the mean of the two middle ones. The reduction of a row that holds a text
  is not described here.
\<close>

definition median :: "real list \<Rightarrow> cell" where
  "median xs =
     (let ys = sort xs; n = length ys
      in if n = 0 then NaN
         else if odd n then Num (ys ! (n div 2))
         else Num ((ys ! (n div 2 - 1) + ys ! (n div 2)) / 2))"

fun numbers :: "cell list \<Rightarrow> real list" where
  "numbers [] = []"
| "numbers (Num v # cs) = v # numbers cs"
| "numbers (c # cs) = numbers cs"

definition has_text :: "cell list \<Rightarrow> bool" where
  "has_text cs = list_ex (\<lambda>c. case c of Str s \<Rightarrow> True | _ \<Rightarrow> False) cs"

definition median_axis1 :: "frame \<Rightarrow> error + series" where
  "median_axis1 df =
     (let rows = map (row_at df) [0..<length (index df)]
      in if list_ex has_text rows then Inl NotModelled
         else Inr (index df, map (\<lambda>r. median (numbers r)) rows))"

text \<open>
  The state of \<open>matplotlib.pyplot\<close>: the figures by number, in the order of their
  creation, the number of the current figure, and whether \<open>plt.show()\<close> has run. A
  figure holds its plotted lines in the order of the \<open>plt.plot\<close> calls.
\<close>

record line2d =
  xdata :: "cell list"
  ydata :: "cell list"
  fmt :: string
  alpha :: "real option"
  label :: string

record figure =
  lines :: "line2d list"
  xscale :: string
  yscale :: string
  xlabel :: string
  ylabel :: string
  legend :: bool
  tight_layout :: bool
  savefig :: "string list"

record pyplot =
  figures :: "(nat \<times> figure) list"
  current :: "nat option"
  shown :: bool

definition new_figure :: figure where
  "new_figure = \<lparr>lines = [], xscale = ''linear'', yscale = ''linear'', xlabel = [], ylabel = [],
                  legend = False, tight_layout = False, savefig = []\<rparr>"

definition plt_init :: pyplot where
  "plt_init = \<lparr>figures = [], current = None, shown = False\<rparr>"

definition plt_figure :: "nat \<Rightarrow> pyplot \<Rightarrow> pyplot" where
  "plt_figure n st =
     (case map_of (figures st) n of
        None \<Rightarrow> st\<lparr>figures := figures st @ [(n, new_figure)], current := Some n\<rparr>
      | Some fig \<Rightarrow> st\<lparr>current := Some n\<rparr>)"

definition on_current :: "(figure \<Rightarrow> figure) \<Rightarrow> pyplot \<Rightarrow> pyplot" where
  "on_current upd st =
     st\<lparr>figures := map (\<lambda>(n, fig). if current st = Some n then (n, upd fig) else (n, fig))
                      (figures st)\<rparr>"

definition plt_plot :: "line2d \<Rightarrow> pyplot \<Rightarrow> pyplot" where
  "plt_plot line = on_current (\<lambda>fig. fig\<lparr>lines := lines fig @ [line]\<rparr>)"

definition plt_savefig :: "string option \<Rightarrow> pyplot \<Rightarrow> pyplot" where
  "plt_savefig outfile st =
     (case outfile of
        None \<Rightarrow> st
      | Some path \<Rightarrow>
          if path = [] then st
          else on_current (\<lambda>fig. fig\<lparr>savefig := savefig fig @ [path]\<rparr>) st)"

definition plt_show :: "pyplot \<Rightarrow> pyplot" where
  "plt_show st = st\<lparr>shown := True\<rparr>"

text \<open>
  The lowess smoother of statsmodels is not part of the script: it is a parameter, called
  as \<open>lowess endog exog is_sorted frac it\<close>, that returns the smoothed points
  \<open>(x, y)\<close> or fails.
\<close>

type_synonym smoother =
  "cell list \<Rightarrow> cell list \<Rightarrow> bool \<Rightarrow> real \<Rightarrow> nat \<Rightarrow> error + (real \<times> real) list"

definition tweak_plot :: "string \<Rightarrow> string option \<Rightarrow> pyplot \<Rightarrow> pyplot" where
  "tweak_plot ylab outfile st =
     plt_savefig outfile
       (on_current (\<lambda>fig. fig\<lparr>xscale := ''log'', yscale := ''log'', xlabel := ''f (Hz)'',
                               ylabel := ylab, legend := True, tight_layout := True\<rparr>) st)"

definition plot_spectras :: "smoother \<Rightarrow> frame \<Rightarrow> string option \<Rightarrow> pyplot \<Rightarrow> error + pyplot" where
  "plot_spectras lowess df outfile st =
     (let st = plt_figure 1 st in
      ebind (median_axis1 df) (\<lambda>m.
      let st = plt_plot \<lparr>xdata = fst m, ydata = snd m, fmt = ''k.'', alpha = Some 0.05,
                          label = ''median data with QC flag 0''\<rparr> st in
      ebind (median_axis1 df) (\<lambda>m.
      ebind (lowess (snd m) (index df) True 0.01 0) (\<lambda>smoothed.
      let st = plt_plot \<lparr>xdata = map (\<lambda>p. Num (fst p)) (drop 40 smoothed),
                          ydata = map (\<lambda>p. Num (snd p)) (drop 40 smoothed),
                          fmt = ''b'', alpha = None, label = ''lowess fit''\<rparr> st in
      Inr (tweak_plot ''spectra (T)'' outfile st)))))"

text \<open>\<open>np.linspace(start, stop)\<close> gives 50 points, both ends included.\<close>

definition linspace :: "real \<Rightarrow> real \<Rightarrow> nat \<Rightarrow> real list" where
  "linspace start stop num =
     map (\<lambda>i. start + real i * ((stop - start) / real (num - 1))) [0..<num]"

definition ideal_slope :: line2d where
  "ideal_slope =
     (let x = linspace 0.2 5 50;
          y1 = map (\<lambda>x. 0.006 * x powr (- 4 / 3)) x
      in \<lparr>xdata = map Num x, ydata = map Num y1, fmt = ''r--'', alpha = None,
           label = ''-4/3 slope''\<rparr>)"

definition plot_cospectras :: "smoother \<Rightarrow> frame \<Rightarrow> string option \<Rightarrow> pyplot \<Rightarrow> error + pyplot" where
  "plot_cospectras lowess df outfile st =
     (let st = plt_figure 2 st in
      ebind (median_axis1 df) (\<lambda>m.
      let st = plt_plot \<lparr>xdata = fst m, ydata = snd m, fmt = ''k.'', alpha = Some 0.05,
                          label = ''median data with QC flag 0''\<rparr> st in
      ebind (median_axis1 df) (\<lambda>m.
      ebind (lowess (snd m) (index df) True 0.05 0) (\<lambda>smoothed.
      let st = plt_plot \<lparr>xdata = map (\<lambda>p. Num (fst p)) smoothed,
                          ydata = map (\<lambda>p. Num (snd p)) smoothed,
                          fmt = ''b'', alpha = None, label = ''lowess fit''\<rparr> st in
      let st = plt_plot ideal_slope st in
      Inr (tweak_plot ''cospectra (w/T)'' outfile st)))))"

section \<open>main\<close>

definition main_folder :: string where
  "main_folder =
     ''E:'' @ [CHR 0x5C] @ ''flux_data_processing'' @ [CHR 0x5C] @ ''10hz_data'' @ [CHR 0x5C] @
     ''MOFO_understory'' @ [CHR 0x5C] @ ''ep_output'' @ [CHR 0x5C] @ ''13m_canopy_height''"

definition main :: "env \<Rightarrow> smoother \<Rightarrow> error + pyplot" where
  "main e lowess =
     ebind (get_good_files e main_folder) (\<lambda>good_files.
     ebind (merge_good_files e good_files main_folder) (\<lambda>(good_spectras, good_cospectras).
     ebind (plot_spectras lowess good_spectras None plt_init) (\<lambda>st.
     ebind (plot_cospectras lowess good_cospectras None st) (\<lambda>st.
     Inr (plt_show st)))))"

section \<open>Concrete runs\<close>

text \<open>
  A small output folder on which the definitions are evaluated: a full_output table of
  four raw files, three of them with flag 0, and the (co)spectra of two of these. The
  field reader knows a few numerals, the empty field, and takes the rest as text.
\<close>

definition demo_reader :: "string \<Rightarrow> cell" where
  "demo_reader s =
     (if s = [] then NaN
      else if s = ''0'' then Num 0
      else if s = ''1'' then Num 1
      else if s = ''2'' then Num 2
      else if s = ''3'' then Num 3
      else if s = ''4'' then Num 4
      else if s = ''5'' then Num 5
      else if s = ''-9999'' then Num (- 9999)
      else Str s)"

definition demo_glob :: "string \<Rightarrow> string list" where
  "demo_glob p =
     (if p = ''out/**full_output*.csv*'' then [''out/eddypro_full_output.csv'']
      else if p = ''out/eddypro_full_cospectra/*20190723-1200*.csv''
      then [''out/eddypro_full_cospectra/20190723-1200_full_cospectra.csv'']
      else if p = ''out/eddypro_full_cospectra/*20190723-1330*.csv''
      then [''out/eddypro_full_cospectra/20190723-1330_full_cospectra.csv'']
      else [])"

definition demo_files :: "string \<Rightarrow> string list list option" where
  "demo_files p =
     (if p = ''out/eddypro_full_output.csv''
      then Some [[''file_info''],
                 [''filename'', ''date'', ''qc_co2_flux''],
                 [''-'', ''-'', ''#''],
                 [''MOFO_20190723-1200.csv'', ''2019-07-23'', ''0''],
                 [''MOFO_20190723-1230.csv'', ''2019-07-23'', ''1''],
                 [''MOFO_20190723-1300.csv'', ''2019-07-23'', ''0''],
                 [''MOFO_20190723-1330.csv'', ''2019-07-23'', ''0'']]
      else if p = ''out/eddypro_full_cospectra/20190723-1200_full_cospectra.csv''
      then Some (replicate 12 [''info''] @
                 [[''natural_frequency'', ''f_nat*spec(ts)'', ''f_nat*cospec(w_ts)''],
                  [''1'', ''2'', ''3''],
                  [''2'', ''-9999'', ''1''],
                  [''3'', ''1'', ''2'']])
      else if p = ''out/eddypro_full_cospectra/20190723-1330_full_cospectra.csv''
      then Some (replicate 12 [''info''] @
                 [[''natural_frequency'', ''f_nat*spec(ts)'', ''f_nat*cospec(w_ts)''],
                  [''1'', ''3'', ''1''],
                  [''2'', ''1'', ''1''],
                  [''3'', ''5'', ''4'']])
      else None)"

definition demo_env :: env where
  "demo_env = \<lparr>glob = demo_glob, file_lines = demo_files, as_cell = demo_reader\<rparr>"

definition demo_good :: "cell list" where
  "demo_good = [Str ''MOFO_20190723-1200.csv'', Str ''MOFO_20190723-1300.csv'',
                Str ''MOFO_20190723-1330.csv'']"

definition demo_spectras :: frame where
  "demo_spectras = \<lparr>index = [Num 1, Num 3],
      columns = [(''20190723-1200'', [Num 2, Num 1]), (''20190723-1330'', [Num 3, Num 5])]\<rparr>"

definition demo_cospectras :: frame where
  "demo_cospectras = \<lparr>index = [Num 1, Num 3],
      columns = [(''20190723-1200'', [Num 3, Num 2]), (''20190723-1330'', [Num 1, Num 4])]\<rparr>"

text \<open>A full_output table in which two rows name the same raw file.\<close>

definition dup_env :: env where
  "dup_env =
     \<lparr>glob = (\<lambda>p. if p = ''out/**full_output*.csv*'' then [''out/eddypro_full_output.csv''] else []),
      file_lines = (\<lambda>p. if p = ''out/eddypro_full_output.csv''
                         then Some [[''file_info''],
                                    [''filename'', ''qc_co2_flux''],
                                    [''-'', ''#''],
                                    [''a.csv'', ''0''],
                                    [''a.csv'', ''1'']]
                         else None),
      as_cell = demo_reader\<rparr>"

text \<open>
  A folder with one (co)spectra file whose second row has the sentinel -9999 as its
  frequency and numbers in its other columns.
\<close>

definition label_env :: env where
  "label_env =
     \<lparr>glob = (\<lambda>p. if p = ''out/eddypro_full_cospectra/*20190723-1200*.csv''
                   then [''out/eddypro_full_cospectra/20190723-1200_full_cospectra.csv'']
                   else []),
      file_lines = (\<lambda>p. if p = ''out/eddypro_full_cospectra/20190723-1200_full_cospectra.csv''
                         then Some (replicate 12 [''info''] @
                                [[''natural_frequency'', ''f_nat*spec(ts)'', ''f_nat*cospec(w_ts)''],
                                 [''1'', ''2'', ''3''],
                                 [''-9999'', ''4'', ''5''],
                                 [''3'', ''1'', ''2'']])
                         else None),
      as_cell = demo_reader\<rparr>"

text \<open>
  The same folder under the path that \<open>main\<close> uses, a stand-in for the smoother
  that returns the points as they are, and the state of pyplot after
  \<open>plot_spectras\<close> on the merged spectra of the folder.
\<close>

definition at_folder :: "string \<Rightarrow> string \<Rightarrow> string option" where
  "at_folder folder p =
     (if take (length folder) p = folder then Some (''out'' @ drop (length folder) p) else None)"

definition main_env :: env where
  "main_env =
     \<lparr>glob = (\<lambda>p. case at_folder main_folder p of
                     None \<Rightarrow> []
                   | Some q \<Rightarrow> map (\<lambda>r. main_folder @ drop 3 r) (demo_glob q)),
      file_lines = (\<lambda>p. case at_folder main_folder p of None \<Rightarrow> None | Some q \<Rightarrow> demo_files q),
      as_cell = demo_reader\<rparr>"

definition demo_lowess :: smoother where
  "demo_lowess endog exog is_sorted window iters =
     Inr (map (\<lambda>(x, y). (case x of Num v \<Rightarrow> v | _ \<Rightarrow> 0, case y of Num v \<Rightarrow> v | _ \<Rightarrow> 0))
            (zip exog endog))"

definition demo_figure1 :: pyplot where
  "demo_figure1 =
     \<lparr>figures =
        [(1, \<lparr>lines = [\<lparr>xdata = [Num 1, Num 3], ydata = [Num (5 / 2), Num 3], fmt = ''k.'',
                          alpha = Some 0.05, label = ''median data with QC flag 0''\<rparr>,
                        \<lparr>xdata = [], ydata = [], fmt = ''b'', alpha = None,
                          label = ''lowess fit''\<rparr>],
              xscale = ''log'', yscale = ''log'', xlabel = ''f (Hz)'', ylabel = ''spectra (T)'',
              legend = True, tight_layout = True, savefig = []\<rparr>)],
      current = Some 1, shown = False\<rparr>"

section \<open>Auxiliary notions\<close>

text \<open>A frame is well formed when every column has one cell per index label.\<close>

definition wf_frame :: "frame \<Rightarrow> bool" where
  "wf_frame df = list_all (\<lambda>(name, vs). length vs = length (index df)) (columns df)"

text \<open>The table that \<open>get_good_files\<close> parses.\<close>

definition full_output_table :: "env \<Rightarrow> string \<Rightarrow> error + frame" where
  "full_output_table e ep_output_folder =
     (case glob e (ep_output_folder @ ''/**full_output*.csv*'') of
        [] \<Rightarrow> Inl IndexError
      | full_output_file # _ \<Rightarrow> read_csv e full_output_file (SkipLines [0, 2]) False None)"

text \<open>The column names of a frame, in order.\<close>

definition colnames :: "frame \<Rightarrow> string list" where
  "colnames df = map fst (columns df)"

text \<open>
  The pattern as the specification words it: the characters 5 to 12 of the file name, a
  hyphen, and the characters at the positions -8 to -5, each as far as the name has it.
\<close>

definition pattern_spec :: "string \<Rightarrow> string" where
  "pattern_spec f =
     [f ! i. i \<leftarrow> [5..<13], i < length f] @ ''-'' @
     [f ! (length f - k). k \<leftarrow> [8, 7, 6, 5], k \<le> length f]"

text \<open>
  A raw file name has a match when the glob for its pattern finds a (co)spectra file.
\<close>

definition has_match :: "env \<Rightarrow> string \<Rightarrow> string \<Rightarrow> bool" where
  "has_match e ep_output_folder f = (glob e (cospectra_glob ep_output_folder f) \<noteq> [])"

text \<open>
  The series that one turn of the loop takes from a (co)spectra file: the named column of
  the table read with sentinel -9999, after \<open>dropna\<close>.
\<close>

definition file_series :: "env \<Rightarrow> string \<Rightarrow> string \<Rightarrow> error + series" where
  "file_series e path name =
     ebind (read_csv e path (SkipFirst 12) True (Some (- 9999))) (\<lambda>df. getitem (dropna df) name)"

text \<open>
  The values that a series contributes to a frame with index \<open>idx\<close>: its own
  values when it has that index, the values looked up by label otherwise.
\<close>

definition align :: "cell list \<Rightarrow> series \<Rightarrow> cell list" where
  "align idx s = (if fst s = idx then snd s else reindex s idx)"

text \<open>
  \<open>source_of\<close>: the series \<open>s\<close> is what the loop takes, under the column name
  \<open>p\<close>, from the (co)spectra file found for one of the file names \<open>seen\<close>.
  \<open>taken\<close>: every column of the frame holds the values of such a series, and the
  index of the frame is the index of one of them.
\<close>

definition source_of :: "env \<Rightarrow> string \<Rightarrow> cell list \<Rightarrow> string \<Rightarrow> string \<Rightarrow> series \<Rightarrow> bool" where
  "source_of e folder seen name p s \<longleftrightarrow>
     (\<exists>f path rest. Str f \<in> set seen \<and> pattern f = p \<and>
        glob e (cospectra_glob folder f) = path # rest \<and> file_series e path name = Inr s)"

definition taken :: "env \<Rightarrow> string \<Rightarrow> cell list \<Rightarrow> string \<Rightarrow> frame \<Rightarrow> bool" where
  "taken e folder seen name df \<longleftrightarrow>
     wf_frame df \<and>
     (\<forall>(p, vs) \<in> set (columns df).
        \<exists>s. source_of e folder seen name p s \<and> vs = align (index df) s \<and>
            (index df = [] \<longrightarrow> fst s = [])) \<and>
     (index df = [] \<or> (\<exists>p s. source_of e folder seen name p s \<and> fst s = index df))"

text \<open>The invariants of the loop of \<open>merge_good_files\<close>.\<close>

definition names_inv :: "env \<Rightarrow> string \<Rightarrow> cell list \<Rightarrow> frame \<times> frame \<Rightarrow> bool" where
  "names_inv e folder seen acc \<longleftrightarrow>
     colnames (fst acc) = colnames (snd acc) \<and> distinct (colnames (fst acc)) \<and>
     set (colnames (fst acc)) = {pattern f | f. Str f \<in> set seen \<and> has_match e folder f}"

definition merged_inv :: "env \<Rightarrow> string \<Rightarrow> cell list \<Rightarrow> frame \<times> frame \<Rightarrow> bool" where
  "merged_inv e folder seen acc \<longleftrightarrow>
     taken e folder seen ''f_nat*spec(ts)'' (fst acc) \<and>
     taken e folder seen ''f_nat*cospec(w_ts)'' (snd acc) \<and>
     index (fst acc) = index (snd acc)"

text \<open>A frame with every cell, index labels included, passed through a function.\<close>

definition map_cells :: "(cell \<Rightarrow> cell) \<Rightarrow> frame \<Rightarrow> frame" where
  "map_cells g df =
     \<lparr>index = map g (index df), columns = map (\<lambda>(n, vs). (n, map g vs)) (columns df)\<rparr>"

text \<open>The positions of the rows that \<open>dropna\<close> keeps.\<close>

definition kept_rows :: "frame \<Rightarrow> nat list" where
  "kept_rows df = filter (\<lambda>j. list_all (\<lambda>c. c \<noteq> NaN) (row_at df j)) [0..<length (index df)]"

text \<open>
  \<open>from_clean_row e path name k v\<close>: read without a sentinel, the (co)spectra file
  \<open>path\<close> has a row that holds neither a missing value nor the number -9999 in any
  column, whose value in the column \<open>name\<close> is \<open>v\<close> and whose label is read
  as \<open>k\<close>.
\<close>

definition from_clean_row :: "env \<Rightarrow> string \<Rightarrow> string \<Rightarrow> cell \<Rightarrow> cell \<Rightarrow> bool" where
  "from_clean_row e path name k v \<longleftrightarrow>
     (\<exists>raw col j. read_csv e path (SkipFirst 12) True None = Inr raw \<and>
        map_of (columns raw) name = Some col \<and> j < length (index raw) \<and>
        k = na_filter (Some (- 9999)) (index raw ! j) \<and> v = col ! j \<and>
        (\<forall>c \<in> set (row_at raw j). c \<noteq> NaN \<and> c \<noteq> Num (- 9999)))"

text \<open>The lines plotted on the figure of a given number, in the order of the calls.\<close>

definition lines_of :: "pyplot \<Rightarrow> nat \<Rightarrow> line2d list" where
  "lines_of st n = (case map_of (figures st) n of None \<Rightarrow> [] | Some fig \<Rightarrow> lines fig)"

text \<open>
  The two lines that both plot functions draw: the median data over the index, and the
  lowess fit through the given points.
\<close>

definition median_line :: "series \<Rightarrow> line2d" where
  "median_line m = \<lparr>xdata = fst m, ydata = snd m, fmt = ''k.'', alpha = Some 0.05,
                     label = ''median data with QC flag 0''\<rparr>"

definition lowess_line :: "(real \<times> real) list \<Rightarrow> line2d" where
  "lowess_line pts = \<lparr>xdata = map (\<lambda>p. Num (fst p)) pts, ydata = map (\<lambda>p. Num (snd p)) pts,
                       fmt = ''b'', alpha = None, label = ''lowess fit''\<rparr>"

text \<open>The per-row medians of a frame, missing values left out.\<close>

definition row_medians :: "frame \<Rightarrow> cell list" where
  "row_medians df = map (\<lambda>i. median (numbers (row_at df i))) [0..<length (index df)]"


section \<open>Frames and the reader: basic facts\<close>

lemma select_conv:
  "length qs = length fs \<Longrightarrow>
   select (map P qs) fs = map snd (filter (\<lambda>(q, f). P q) (zip qs fs))"
  unfolding select_def
  by (induction qs fs rule: list_induct2) auto

lemma set_select:
  assumes "length qs = length fs"
  shows "set (select (map P qs) fs) = {fs ! i | i. i < length fs \<and> P (qs ! i)}"
proof -
  have "set (select (map P qs) fs) = snd ` {p \<in> set (zip qs fs). P (fst p)}"
    by (simp add: select_conv[OF assms] case_prod_unfold)
  also have "\<dots> = {fs ! i | i. i < length fs \<and> P (qs ! i)}"
    using assms by (fastforce simp: set_zip image_iff)
  finally show ?thesis .
qed

lemma ebind_Inr_iff: "ebind m k = Inr y \<longleftrightarrow> (\<exists>x. m = Inr x \<and> k x = Inr y)"
  by (cases m) (auto simp: ebind_def)

lemma map_of_wf: "wf_frame df \<Longrightarrow> map_of (columns df) n = Some vs \<Longrightarrow> length vs = length (index df)"
  unfolding wf_frame_def by (auto simp: list_all_iff dest!: map_of_SomeD)

lemma map_of_map_snd:
  "map_of (map (\<lambda>(k, v). (k, f v)) xs) n = map_option f (map_of xs n)"
  by (induction xs) auto

lemma map_of_select_rows:
  "map_of (columns (select_rows keep df)) n = map_option (select keep) (map_of (columns df) n)"
  unfolding select_rows_def by (simp add: map_of_map_snd)

lemma read_csv_wf: "read_csv e path skip ic na = Inr df \<Longrightarrow> wf_frame df"
  unfolding read_csv_def wf_frame_def
  by (auto simp: Let_def list_all_iff column_of_def split: option.splits list.splits if_splits)

lemma query_eq0_Inr_iff:
  "query_eq0 df n = Inr df' \<longleftrightarrow>
     (\<exists>vs. map_of (columns df) n = Some vs \<and> df' = select_rows (map (\<lambda>c. c = Num 0) vs) df)"
  unfolding query_eq0_def by (auto split: option.splits)

lemma getitem_Inr_iff:
  "getitem df n = Inr s \<longleftrightarrow> (\<exists>vs. map_of (columns df) n = Some vs \<and> s = (index df, vs))"
  unfolding getitem_def by (auto split: option.splits)

lemma good_of_table:
  "ebind (Inr df) (\<lambda>df.
     ebind (query_eq0 df ''qc_co2_flux'') (\<lambda>df.
     ebind (getitem df ''filename'') (\<lambda>s. Inr (snd s)))) = Inr good \<longleftrightarrow>
   (\<exists>qc fn. map_of (columns df) ''qc_co2_flux'' = Some qc \<and>
        map_of (columns df) ''filename'' = Some fn \<and>
        good = select (map (\<lambda>c. c = Num 0) qc) fn)"
  by (auto simp: ebind_Inr_iff query_eq0_Inr_iff getitem_Inr_iff map_of_select_rows)

lemma get_good_files_eq:
  "get_good_files e folder = Inr good \<longleftrightarrow>
     (\<exists>df qc fn. full_output_table e folder = Inr df \<and>
        map_of (columns df) ''qc_co2_flux'' = Some qc \<and>
        map_of (columns df) ''filename'' = Some fn \<and>
        good = select (map (\<lambda>c. c = Num 0) qc) fn)"
proof (cases "glob e (folder @ ''/**full_output*.csv*'')")
  case Nil
  then show ?thesis by (simp add: get_good_files_def full_output_table_def)
next
  case (Cons p ps)
  show ?thesis
  proof (cases "read_csv e p (SkipLines [0, 2]) False None")
    case (Inl err)
    with Cons show ?thesis by (simp add: get_good_files_def full_output_table_def ebind_def)
  next
    case (Inr df)
    with Cons good_of_table[of df good] show ?thesis
      by (simp add: get_good_files_def full_output_table_def)
  qed
qed

section \<open>The selection of good files\<close>

text \<open>
  C1, as the script behaves. \<open>get_good_files\<close> returns, in table order, the
  \<open>filename\<close> values of the rows of the parsed full_output table whose
  \<open>qc_co2_flux\<close> is 0: as a set, the returned array is exactly the set of the file
  names of those rows. A row with flag 0 always has its file name in the array, and
  every element of the array is the file name of some row with flag 0. The row-wise
  equivalence (the file name of a row is in the array if and only if the flag of that
  very row is 0) holds when no file name occurs in two rows of the table.
\<close>

theorem get_good_files_rows:
  assumes "get_good_files e ep_output_folder = Inr good"
  shows "\<exists>df qc fn.
      full_output_table e ep_output_folder = Inr df \<and>
      map_of (columns df) ''qc_co2_flux'' = Some qc \<and>
      map_of (columns df) ''filename'' = Some fn \<and>
      length qc = length (index df) \<and> length fn = length (index df) \<and>
      good = select (map (\<lambda>c. c = Num 0) qc) fn \<and>
      set good = {fn ! i | i. i < length (index df) \<and> qc ! i = Num 0} \<and>
      (distinct fn \<longrightarrow> (\<forall>i < length (index df). (fn ! i \<in> set good) = (qc ! i = Num 0)))"
proof -
  from assms obtain df qc fn where
    tab: "full_output_table e ep_output_folder = Inr df" and
    qc: "map_of (columns df) ''qc_co2_flux'' = Some qc" and
    fn: "map_of (columns df) ''filename'' = Some fn" and
    good: "good = select (map (\<lambda>c. c = Num 0) qc) fn"
    unfolding get_good_files_eq by blast
  from tab have wf: "wf_frame df"
    by (auto simp: full_output_table_def split: list.splits dest: read_csv_wf)
  have lq: "length qc = length (index df)" and lf: "length fn = length (index df)"
    using map_of_wf[OF wf qc] map_of_wf[OF wf fn] by simp_all
  have sg: "set good = {fn ! i | i. i < length (index df) \<and> qc ! i = Num 0}"
    unfolding good using set_select[of qc fn "\<lambda>c. c = Num 0"] lq lf by simp
  have "\<forall>i < length (index df). (fn ! i \<in> set good) = (qc ! i = Num 0)" if d: "distinct fn"
  proof (intro allI impI)
    fix i assume i: "i < length (index df)"
    show "(fn ! i \<in> set good) = (qc ! i = Num 0)"
    proof
      assume "fn ! i \<in> set good"
      then obtain j where j: "j < length (index df)" "fn ! j = fn ! i" "qc ! j = Num 0"
        unfolding sg by auto
      with d i lf have "j = i" by (simp add: nth_eq_iff_index_eq)
      with j show "qc ! i = Num 0" by simp
    next
      assume "qc ! i = Num 0"
      with i show "fn ! i \<in> set good" unfolding sg by auto
    qed
  qed
  with tab qc fn lq lf good sg show ?thesis by blast
qed

theorem get_good_files_rows_witness:
  "get_good_files demo_env ''out'' = Inr demo_good \<and>
   (\<exists>df qc fn.
      full_output_table demo_env ''out'' = Inr df \<and>
      map_of (columns df) ''qc_co2_flux'' = Some qc \<and>
      map_of (columns df) ''filename'' = Some fn \<and>
      length qc = length (index df) \<and> length fn = length (index df) \<and>
      demo_good = select (map (\<lambda>c. c = Num 0) qc) fn \<and>
      set demo_good = {fn ! i | i. i < length (index df) \<and> qc ! i = Num 0} \<and>
      (distinct fn \<longrightarrow> (\<forall>i < length (index df). (fn ! i \<in> set demo_good) = (qc ! i = Num 0))))"
proof -
  have run: "get_good_files demo_env ''out'' = Inr demo_good"
    by code_simp
  from get_good_files_rows[OF run] run show ?thesis
    by blast
qed

text \<open>
  C1 as it is worded fails when a file name occurs twice. In the table of
  \<open>dup_env\<close> the rows 0 and 1 both name \<open>a.csv\<close>, with flags 0 and 1. The returned
  array is \<open>[a.csv]\<close>: the file name of row 1 is in it, and the flag of row 1 is not 0.
\<close>

theorem get_good_files_duplicate_counterexample:
  "get_good_files dup_env ''out'' = Inr [Str ''a.csv''] \<and>
   full_output_table dup_env ''out'' =
     Inr \<lparr>index = [Num 0, Num 1],
          columns = [(''filename'', [Str ''a.csv'', Str ''a.csv'']),
                     (''qc_co2_flux'', [Num 0, Num 1])]\<rparr> \<and>
   [Str ''a.csv'', Str ''a.csv''] ! 1 \<in> set [Str ''a.csv''] \<and>
   [Num 0, Num 1] ! 1 \<noteq> Num 0"
  by code_simp

section \<open>The merge loop\<close>

subsection \<open>The pattern\<close>

lemma take_drop_nths: "take k (drop a xs) = map ((!) xs) [a..<min (a + k) (length xs)]"
  by (rule nth_equalityI) auto

lemma filter_less_upt: "filter (\<lambda>i. i < n) [a..<b] = [a..<min b n]"
  by (induction b) auto

lemma concat_if_conv: "concat (map (\<lambda>x. if P x then [g x] else []) xs) = map g (filter P xs)"
  by (induction xs) auto

lemma slice_front: "py_slice f 5 13 = [f ! i. i \<leftarrow> [5..<13], i < length f]"
proof -
  have "py_slice f 5 13 = take 8 (drop 5 f)"
    by (auto simp: py_slice_def Let_def min_def nat_diff_distrib)
  also have "\<dots> = map ((!) f) [5..<min 13 (length f)]"
    by (simp add: take_drop_nths)
  also have "\<dots> = map ((!) f) (filter (\<lambda>i. i < length f) [5..<13])"
    by (simp only: filter_less_upt)
  also have "\<dots> = [f ! i. i \<leftarrow> [5..<13], i < length f]"
    by (simp only: concat_if_conv)
  finally show ?thesis .
qed

lemma slice_back_long:
  assumes "8 \<le> length f"
  shows "py_slice f (- 8) (- 4) =
         [f ! (length f - 8), f ! (length f - 7), f ! (length f - 6), f ! (length f - 5)]"
proof -
  define a where "a = length f - 8"
  have n: "length f = a + 8" using assms by (simp add: a_def)
  have "py_slice f (- 8) (- 4) = take 4 (drop a f)"
    using n by (simp add: py_slice_def Let_def nat_add_distrib)
  also have "\<dots> = map ((!) f) [a..<a + 4]"
    using n by (simp add: take_drop_nths)
  also have "[a..<a + 4] = [a, a + 1, a + 2, a + 3]"
    by (simp add: upt_rec[of a] upt_rec[of "Suc a"] upt_rec[of "Suc (Suc a)"] upt_rec[of "Suc (Suc (Suc a))"]  upt_rec[of "Suc (Suc (Suc (Suc a)))"])
  finally show ?thesis using n by (simp add: add.commute)
qed

lemma slice_back: "py_slice f (- 8) (- 4) = [f ! (length f - k). k \<leftarrow> [8, 7, 6, 5], k \<le> length f]"
proof (cases "8 \<le> length f")
  case True
  then show ?thesis by (simp add: slice_back_long)
next
  case False
  then consider "length f \<le> 4" | "length f = 5" | "length f = 6" | "length f = 7"
    by linarith
  then show ?thesis
  proof cases
    case 1
    then show ?thesis by (simp add: py_slice_def Let_def)
  next
    case 2
    then obtain a b c d e where "f = [a, b, c, d, e]"
      by (auto simp: length_Suc_conv numeral_eq_Suc)
    then show ?thesis by (simp add: py_slice_def)
  next
    case 3
    then obtain a b c d e g where "f = [a, b, c, d, e, g]"
      by (auto simp: length_Suc_conv numeral_eq_Suc)
    then show ?thesis by (simp add: py_slice_def)
  next
    case 4
    then obtain a b c d e g h where "f = [a, b, c, d, e, g, h]"
      by (auto simp: length_Suc_conv numeral_eq_Suc)
    then show ?thesis by (simp add: py_slice_def)
  qed
qed

lemma pattern_eq_spec: "pattern f = pattern_spec f"
  by (simp only: pattern_def pattern_spec_def slice_front slice_back)

lemma pattern_long:
  assumes "13 \<le> length f"
  shows "pattern f =
     [f ! 5, f ! 6, f ! 7, f ! 8, f ! 9, f ! 10, f ! 11, f ! 12] @ ''-'' @
     [f ! (length f - 8), f ! (length f - 7), f ! (length f - 6), f ! (length f - 5)]"
  using assms by (simp add: pattern_eq_spec pattern_spec_def)

subsection \<open>Assignment of a column\<close>

lemma map_fst_fill: "map fst (map (\<lambda>(n, vs). (n, replicate k NaN)) cols) = map fst cols"
  by (induction cols) auto

lemma setitem_columns:
  assumes "setitem df p s = Inr df'"
  obtains v cols where "columns df' = AList.update p v cols" and "map fst cols = map fst (columns df)"
proof (cases "index df = []")
  case True
  with assms have "columns df' = AList.update p (snd s)
      (map (\<lambda>(n, vs). (n, replicate (length (fst s)) NaN)) (columns df))"
    by (auto simp: setitem_def)
  then show ?thesis by (rule that) (rule map_fst_fill)
next
  case False
  with assms have "columns df' = AList.update p (snd s) (columns df) \<or>
      columns df' = AList.update p (reindex s (index df)) (columns df)"
    by (auto simp: setitem_def split: if_splits)
  then show ?thesis using that by blast
qed

lemma setitem_colnames:
  assumes "setitem df p s = Inr df'"
  shows "colnames df' = (if p \<in> set (colnames df) then colnames df else colnames df @ [p])"
proof -
  from setitem_columns[OF assms] obtain v cols where
    "columns df' = AList.update p v cols" "map fst cols = map fst (columns df)" by blast
  then show ?thesis by (simp add: colnames_def update_keys)
qed

lemma set_update_cases:
  "x \<in> set (AList.update k v al) \<Longrightarrow> x = (k, v) \<or> x \<in> set al"
  by (induction al) (auto split: if_splits)

lemma map_of_update_same: "map_of (AList.update k v al) k = Some v"
  by (simp add: update_conv')

lemma length_select_eq:
  "length xs = length ys \<Longrightarrow> length (select keep xs) = length (select keep ys)"
  unfolding select_def
proof (induction keep arbitrary: xs ys)
  case Nil
  then show ?case by simp
next
  case (Cons k keep)
  then show ?case by (cases xs; cases ys) auto
qed

lemma wf_select_rows: "wf_frame df \<Longrightarrow> wf_frame (select_rows keep df)"
  unfolding wf_frame_def select_rows_def
  by (auto simp: list_all_iff intro: length_select_eq)

lemma wf_dropna: "wf_frame df \<Longrightarrow> wf_frame (dropna df)"
  by (simp add: dropna_def wf_select_rows)

lemma file_series_Inr_iff:
  "file_series e path name = Inr s \<longleftrightarrow>
     (\<exists>df vs. read_csv e path (SkipFirst 12) True (Some (- 9999)) = Inr df \<and>
        map_of (columns (dropna df)) name = Some vs \<and> s = (index (dropna df), vs))"
  by (auto simp: file_series_def ebind_Inr_iff getitem_Inr_iff)

lemma file_series_wf:
  assumes "file_series e path name = Inr s"
  shows "length (snd s) = length (fst s)"
proof -
  from assms obtain df vs where r: "read_csv e path (SkipFirst 12) True (Some (- 9999)) = Inr df"
    and m: "map_of (columns (dropna df)) name = Some vs" and s: "s = (index (dropna df), vs)"
    unfolding file_series_Inr_iff by blast
  from read_csv_wf[OF r] have "wf_frame (dropna df)" by (rule wf_dropna)
  from map_of_wf[OF this m] s show ?thesis by simp
qed

lemma file_series_same_index:
  assumes "file_series e path n1 = Inr s" and "file_series e path n2 = Inr c"
  shows "fst s = fst c"
  using assms unfolding file_series_Inr_iff by auto

lemma reindex_empty: "reindex ([], vs) idx = replicate (length idx) NaN"
  by (simp add: reindex_def map_replicate_const)

lemma length_reindex: "length (reindex s idx) = length idx"
  by (simp add: reindex_def)

lemma setitem_cases:
  assumes "setitem df p s = Inr df'"
  obtains
    (fresh) "index df = []" and "index df' = fst s" and
      "columns df' = AList.update p (snd s)
               (map (\<lambda>(n, vs). (n, replicate (length (fst s)) NaN)) (columns df))"
  | (same) "index df \<noteq> []" and "fst s = index df" and "index df' = index df" and
      "columns df' = AList.update p (snd s) (columns df)"
  | (looked_up) "index df \<noteq> []" and "fst s \<noteq> index df" and "distinct (fst s)" and
      "index df' = index df" and
      "columns df' = AList.update p (reindex s (index df)) (columns df)"
proof (cases "index df = []")
  case True
  with assms have "df' = \<lparr>index = fst s, columns = AList.update p (snd s)
               (map (\<lambda>(n, vs). (n, replicate (length (fst s)) NaN)) (columns df))\<rparr>"
    unfolding setitem_def by simp
  then have "index df' = fst s" "columns df' = AList.update p (snd s)
               (map (\<lambda>(n, vs). (n, replicate (length (fst s)) NaN)) (columns df))"
    by simp_all
  with True show ?thesis by (rule fresh)
next
  case False
  show ?thesis
  proof (cases "fst s = index df")
    case True
    with assms \<open>index df \<noteq> []\<close> have "df' = df\<lparr>columns := AList.update p (snd s) (columns df)\<rparr>"
      unfolding setitem_def by (simp del: frame.simps split: if_splits)
    then have "index df' = index df" "columns df' = AList.update p (snd s) (columns df)"
      by simp_all
    with False True show ?thesis by (rule same)
  next
    case ne: False
    with assms False have d: "distinct (fst s)"
      unfolding setitem_def by (simp split: if_splits)
    with assms False ne have "df' = df\<lparr>columns := AList.update p (reindex s (index df)) (columns df)\<rparr>"
      unfolding setitem_def by simp
    then have "index df' = index df" "columns df' = AList.update p (reindex s (index df)) (columns df)"
      by simp_all
    with False ne d show ?thesis by (rule looked_up)
  qed
qed

lemma setitem_index:
  assumes "setitem df p s = Inr df'"
  shows "index df' = (if index df = [] then fst s else index df)"
  using assms by (cases rule: setitem_cases) simp_all

lemma setitem_new_column:
  assumes "setitem df p s = Inr df'"
  shows "map_of (columns df') p = Some (align (index df') s)"
  using assms by (cases rule: setitem_cases) (simp_all add: align_def map_of_update_same)

lemma setitem_column_cases:
  assumes "setitem df p s = Inr df'" and "(q, vs) \<in> set (columns df')"
  shows "vs = align (index df') s \<and> q = p \<or>
         (\<exists>vs0. (q, vs0) \<in> set (columns df) \<and>
            vs = (if index df = [] then replicate (length (fst s)) NaN else vs0))"
  using assms(1)
proof (cases rule: setitem_cases)
  case fresh
  from assms(2) have "(q, vs) = (p, snd s) \<or>
      (q, vs) \<in> set (map (\<lambda>(n, vs). (n, replicate (length (fst s)) NaN)) (columns df))"
    unfolding fresh(3) by (rule set_update_cases)
  then show ?thesis
  proof
    assume "(q, vs) = (p, snd s)"
    then show ?thesis by (simp add: fresh(2) align_def)
  next
    assume "(q, vs) \<in> set (map (\<lambda>(n, vs). (n, replicate (length (fst s)) NaN)) (columns df))"
    then obtain vs0 where "(q, vs0) \<in> set (columns df)" "vs = replicate (length (fst s)) NaN"
      by auto
    with fresh(1) show ?thesis by auto
  qed
next
  case same
  from assms(2) have "(q, vs) = (p, snd s) \<or> (q, vs) \<in> set (columns df)"
    unfolding same(4) by (rule set_update_cases)
  with same(1,2) show ?thesis by (auto simp: same(3) align_def)
next
  case looked_up
  from assms(2) have "(q, vs) = (p, reindex s (index df)) \<or> (q, vs) \<in> set (columns df)"
    unfolding looked_up(5) by (rule set_update_cases)
  with looked_up(1,2) show ?thesis by (auto simp: looked_up(4) align_def)
qed

lemma setitem_wf:
  assumes "setitem df p s = Inr df'" and "wf_frame df" and "length (snd s) = length (fst s)"
  shows "wf_frame df'"
proof -
  have "length vs = length (index df')" if "(q, vs) \<in> set (columns df')" for q vs
  proof -
    from setitem_column_cases[OF assms(1) that] show ?thesis
    proof
      assume "vs = align (index df') s \<and> q = p"
      then show ?thesis
        using assms(3) by (auto simp: align_def length_reindex)
    next
      assume "\<exists>vs0. (q, vs0) \<in> set (columns df) \<and>
            vs = (if index df = [] then replicate (length (fst s)) NaN else vs0)"
      then obtain vs0 where "(q, vs0) \<in> set (columns df)"
        and v: "vs = (if index df = [] then replicate (length (fst s)) NaN else vs0)" by blast
      with assms(2) have "length vs0 = length (index df)"
        by (auto simp: wf_frame_def list_all_iff)
      with v setitem_index[OF assms(1)] show ?thesis by auto
    qed
  qed
  then show ?thesis by (auto simp: wf_frame_def list_all_iff)
qed

subsection \<open>The loop and its invariants\<close>

lemma merge_step_not_Str: "merge_step e folder acc fc = Inr acc' \<Longrightarrow> \<exists>f. fc = Str f"
  by (cases fc) (simp_all add: merge_step_def)

lemma merge_step_no_match:
  "glob e (cospectra_glob folder f) = [] \<Longrightarrow> merge_step e folder acc (Str f) = Inr acc"
  by (simp add: merge_step_def)

lemma merge_step_match:
  assumes "glob e (cospectra_glob folder f) = path # rest"
  shows "merge_step e folder acc (Str f) = Inr acc' \<longleftrightarrow>
     (\<exists>s c. file_series e path ''f_nat*spec(ts)'' = Inr s \<and>
            file_series e path ''f_nat*cospec(w_ts)'' = Inr c \<and>
            setitem (fst acc) (pattern f) s = Inr (fst acc') \<and>
            setitem (snd acc) (pattern f) c = Inr (snd acc'))"
proof (cases "read_csv e path (SkipFirst 12) True (Some (- 9999))")
  case (Inl err)
  with assms show ?thesis
    by (simp add: merge_step_def file_series_def ebind_def)
next
  case (Inr df)
  with assms show ?thesis
    by (cases acc') (auto simp: merge_step_def file_series_def ebind_Inr_iff Let_def)
qed

lemma merge_loop_invariant:
  assumes "merge_loop e folder fs acc = Inr res"
    and "I seen acc"
    and "\<And>seen f a a'. I seen a \<Longrightarrow> merge_step e folder a f = Inr a' \<Longrightarrow> I (seen @ [f]) a'"
  shows "I (seen @ fs) res"
  using assms(1,2)
proof (induction fs arbitrary: acc seen)
  case Nil
  then show ?case by simp
next
  case (Cons f fs)
  from Cons.prems(1) obtain a' where
    step: "merge_step e folder acc f = Inr a'" and rest: "merge_loop e folder fs a' = Inr res"
    by (auto simp: ebind_Inr_iff)
  from assms(3)[OF Cons.prems(2) step] have "I (seen @ [f]) a'" .
  from Cons.IH[OF rest this] show ?case by simp
qed

lemma names_inv_step:
  assumes "names_inv e folder seen a" and "merge_step e folder a fc = Inr a'"
  shows "names_inv e folder (seen @ [fc]) a'"
proof -
  from assms(2) obtain f where fc: "fc = Str f" using merge_step_not_Str by blast
  show ?thesis
  proof (cases "glob e (cospectra_glob folder f)")
    case Nil
    with assms fc have "a' = a" by (simp add: merge_step_no_match)
    with assms(1) Nil fc show ?thesis
      by (auto simp: names_inv_def has_match_def)
  next
    case (Cons path rest)
    from assms(2)[unfolded fc merge_step_match[OF Cons]] obtain s c where
      sp: "setitem (fst a) (pattern f) s = Inr (fst a')" and
      co: "setitem (snd a) (pattern f) c = Inr (snd a')" by blast
    from Cons have m: "has_match e folder f" by (simp add: has_match_def)
    from assms(1) have eq: "colnames (fst a) = colnames (snd a)"
      and d: "distinct (colnames (fst a))"
      and st: "set (colnames (fst a)) = {pattern f | f. Str f \<in> set seen \<and> has_match e folder f}"
      by (auto simp: names_inv_def)
    have 1: "colnames (fst a') = colnames (snd a')"
      using setitem_colnames[OF sp] setitem_colnames[OF co] eq by simp
    have 2: "distinct (colnames (fst a'))"
      using setitem_colnames[OF sp] d by simp
    have "set (colnames (fst a')) = insert (pattern f) (set (colnames (fst a)))"
      using setitem_colnames[OF sp] by auto
    also have "\<dots> = {pattern g | g. Str g \<in> set (seen @ [fc]) \<and> has_match e folder g}"
      unfolding st fc using m by auto
    finally show ?thesis using 1 2 by (simp add: names_inv_def)
  qed
qed

lemma merge_names:
  assumes "merge_good_files e good folder = Inr (sp, co)"
  shows "names_inv e folder good (sp, co)"
proof -
  have "names_inv e folder [] (empty_frame, empty_frame)"
    by (simp add: names_inv_def colnames_def empty_frame_def)
  from merge_loop_invariant[where I = "names_inv e folder", OF assms[unfolded merge_good_files_def] this names_inv_step]
  show ?thesis by simp
qed

lemma source_of_mono:
  "source_of e folder seen name p s \<Longrightarrow> set seen \<subseteq> set seen' \<Longrightarrow>
   source_of e folder seen' name p s"
  unfolding source_of_def by blast

lemma source_of_wf: "source_of e folder seen name p s \<Longrightarrow> length (snd s) = length (fst s)"
  unfolding source_of_def using file_series_wf by blast

lemma align_fill:
  assumes "fst s0 = []" and "length (snd s0) = length (fst s0)"
  shows "replicate (length idx) NaN = align idx s0"
proof (cases "idx = []")
  case True
  with assms show ?thesis by (simp add: align_def)
next
  case False
  from assms have "s0 = ([], [])" by (cases s0) simp
  with False show ?thesis by (simp add: align_def reindex_empty)
qed

lemma taken_setitem:
  assumes t: "taken e folder seen name df"
    and src: "source_of e folder seen' name p s"
    and sub: "set seen \<subseteq> set seen'"
    and set: "setitem df p s = Inr df'"
  shows "taken e folder seen' name df'"
proof -
  from t have wf: "wf_frame df" by (simp add: taken_def)
  have idx: "index df' = (if index df = [] then fst s else index df)"
    by (rule setitem_index[OF set])
  have 1: "wf_frame df'"
    by (rule setitem_wf[OF set wf source_of_wf[OF src]])
  have 2: "\<exists>s'. source_of e folder seen' name q s' \<and> vs = align (index df') s' \<and>
            (index df' = [] \<longrightarrow> fst s' = [])"
    if mem: "(q, vs) \<in> set (columns df')" for q vs
  proof -
    from setitem_column_cases[OF set mem] show ?thesis
    proof
      assume "vs = align (index df') s \<and> q = p"
      moreover have "index df' = [] \<longrightarrow> fst s = []"
        using set by (cases rule: setitem_cases) simp_all
      ultimately show ?thesis using src by blast
    next
      assume "\<exists>vs0. (q, vs0) \<in> set (columns df) \<and>
            vs = (if index df = [] then replicate (length (fst s)) NaN else vs0)"
      then obtain vs0 where old: "(q, vs0) \<in> set (columns df)"
        and v: "vs = (if index df = [] then replicate (length (fst s)) NaN else vs0)" by blast
      from t old obtain s0 where s0: "source_of e folder seen name q s0"
        and a0: "vs0 = align (index df) s0" and e0: "index df = [] \<longrightarrow> fst s0 = []"
        unfolding taken_def by blast
      have "vs = align (index df') s0"
      proof (cases "index df = []")
        case True
        with e0 have "fst s0 = []" by simp
        from align_fill[OF this source_of_wf[OF s0], of "fst s"] v True idx
        show ?thesis by simp
      next
        case False
        with v a0 idx show ?thesis by simp
      qed
      moreover have "index df' = [] \<longrightarrow> fst s0 = []"
        using e0 idx by (auto split: if_splits)
      ultimately show ?thesis
        using source_of_mono[OF s0 sub] by blast
    qed
  qed
  have 3: "index df' = [] \<or> (\<exists>p s. source_of e folder seen' name p s \<and> fst s = index df')"
  proof (cases "index df = []")
    case True
    with idx have "fst s = index df'" by simp
    with src show ?thesis by blast
  next
    case False
    with t obtain p0 s0 where s0: "source_of e folder seen name p0 s0" and "fst s0 = index df"
      unfolding taken_def by blast
    with False idx have "fst s0 = index df'" by simp
    with source_of_mono[OF s0 sub] show ?thesis by blast
  qed
  from 1 2 3 show ?thesis unfolding taken_def by blast
qed

lemma taken_mono:
  "taken e folder seen name df \<Longrightarrow> set seen \<subseteq> set seen' \<Longrightarrow> taken e folder seen' name df"
  unfolding taken_def using source_of_mono by blast

lemma merged_inv_step:
  assumes inv: "merged_inv e folder seen a" and step: "merge_step e folder a fc = Inr a'"
  shows "merged_inv e folder (seen @ [fc]) a'"
proof -
  from step obtain f where fc: "fc = Str f" using merge_step_not_Str by blast
  have sub: "set seen \<subseteq> set (seen @ [fc])" by auto
  show ?thesis
  proof (cases "glob e (cospectra_glob folder f)")
    case Nil
    with step fc have "a' = a" by (simp add: merge_step_no_match)
    with inv show ?thesis
      unfolding merged_inv_def using taken_mono[OF _ sub] by blast
  next
    case (Cons path rest)
    from step[unfolded fc merge_step_match[OF Cons]] obtain s c where
      fs: "file_series e path ''f_nat*spec(ts)'' = Inr s" and
      fc': "file_series e path ''f_nat*cospec(w_ts)'' = Inr c" and
      sp: "setitem (fst a) (pattern f) s = Inr (fst a')" and
      co: "setitem (snd a) (pattern f) c = Inr (snd a')" by blast
    have s1: "source_of e folder (seen @ [fc]) ''f_nat*spec(ts)'' (pattern f) s"
      unfolding source_of_def using Cons fs fc by auto
    have s2: "source_of e folder (seen @ [fc]) ''f_nat*cospec(w_ts)'' (pattern f) c"
      unfolding source_of_def using Cons fc' fc by auto
    from inv have t1: "taken e folder seen ''f_nat*spec(ts)'' (fst a)"
      and t2: "taken e folder seen ''f_nat*cospec(w_ts)'' (snd a)"
      and ix: "index (fst a) = index (snd a)"
      by (auto simp: merged_inv_def)
    have "index (fst a') = index (snd a')"
      using setitem_index[OF sp] setitem_index[OF co] ix file_series_same_index[OF fs fc']
      by simp
    with taken_setitem[OF t1 s1 sub sp] taken_setitem[OF t2 s2 sub co]
    show ?thesis by (simp add: merged_inv_def)
  qed
qed

lemma merged_inv_result:
  assumes "merge_good_files e good folder = Inr (sp, co)"
  shows "merged_inv e folder good (sp, co)"
proof -
  have "merged_inv e folder [] (empty_frame, empty_frame)"
    by (simp add: merged_inv_def taken_def wf_frame_def empty_frame_def)
  from merge_loop_invariant[where I = "merged_inv e folder",
      OF assms[unfolded merge_good_files_def] this merged_inv_step]
  show ?thesis by simp
qed

section \<open>The merged tables\<close>

text \<open>
  C3. The column of a raw file name \<open>f\<close> is keyed by the pattern parsed from
  \<open>f\<close>: the characters 5 to 12 of \<open>f\<close>, a hyphen, and the characters at the
  positions -8 to -5 of \<open>f\<close> (eight and four characters when \<open>f\<close> has at
  least 13). The glob pattern searched for \<open>f\<close> is built from that pattern, and
  when \<open>merge_good_files\<close> returns, the patterns of the file names of
  \<open>good_files\<close> for which the glob finds a file are column names of both tables, and
  both tables have no other column name.
\<close>

theorem pattern_is_merge_key:
  assumes "merge_good_files e good_files ep_output_folder = Inr (sp, co)"
  shows "(\<forall>f. pattern f = pattern_spec f) \<and>
    (\<forall>f. 13 \<le> length f \<longrightarrow> pattern f =
       [f ! 5, f ! 6, f ! 7, f ! 8, f ! 9, f ! 10, f ! 11, f ! 12] @ ''-'' @
       [f ! (length f - 8), f ! (length f - 7), f ! (length f - 6), f ! (length f - 5)]) \<and>
    (\<forall>f. cospectra_glob ep_output_folder f =
       ep_output_folder @ ''/eddypro_full_cospectra/*'' @ pattern_spec f @ ''*.csv'') \<and>
    (\<forall>f. Str f \<in> set good_files \<and>
         glob e (ep_output_folder @ ''/eddypro_full_cospectra/*'' @ pattern_spec f @ ''*.csv'') \<noteq> [] \<longrightarrow>
         pattern_spec f \<in> set (colnames sp) \<and> pattern_spec f \<in> set (colnames co)) \<and>
    (\<forall>p \<in> set (colnames sp) \<union> set (colnames co).
       \<exists>f. Str f \<in> set good_files \<and> p = pattern_spec f \<and>
         glob e (ep_output_folder @ ''/eddypro_full_cospectra/*'' @ pattern_spec f @ ''*.csv'') \<noteq> [])"
proof -
  note nm = merge_names[OF assms, unfolded names_inv_def fst_conv snd_conv]
  from nm have eq: "colnames sp = colnames co" by blast
  from nm have st: "set (colnames sp) =
       {pattern f | f. Str f \<in> set good_files \<and> has_match e ep_output_folder f}" by blast
  have key: "cospectra_glob ep_output_folder f =
       ep_output_folder @ ''/eddypro_full_cospectra/*'' @ pattern_spec f @ ''*.csv''" for f
    by (simp add: cospectra_glob_def pattern_eq_spec)
  have hm: "has_match e ep_output_folder f \<longleftrightarrow>
       glob e (ep_output_folder @ ''/eddypro_full_cospectra/*'' @ pattern_spec f @ ''*.csv'') \<noteq> []" for f
    by (simp only: has_match_def key)
  have 4: "pattern_spec f \<in> set (colnames sp) \<and> pattern_spec f \<in> set (colnames co)"
    if "Str f \<in> set good_files \<and>
         glob e (ep_output_folder @ ''/eddypro_full_cospectra/*'' @ pattern_spec f @ ''*.csv'') \<noteq> []" for f
  proof -
    from that have "pattern f \<in> set (colnames sp)"
      unfolding st hm by blast
    then show ?thesis using eq by (simp add: pattern_eq_spec)
  qed
  have 5: "\<exists>f. Str f \<in> set good_files \<and> p = pattern_spec f \<and>
         glob e (ep_output_folder @ ''/eddypro_full_cospectra/*'' @ pattern_spec f @ ''*.csv'') \<noteq> []"
    if "p \<in> set (colnames sp) \<union> set (colnames co)" for p
  proof -
    from that eq have "p \<in> set (colnames sp)" by simp
    then obtain f where "Str f \<in> set good_files" "p = pattern f" "has_match e ep_output_folder f"
      unfolding st by blast
    then show ?thesis unfolding hm by (auto simp: pattern_eq_spec)
  qed
  show ?thesis
  proof (intro conjI allI impI ballI)
    fix f :: string
    show "pattern f = pattern_spec f" by (rule pattern_eq_spec)
    show "cospectra_glob ep_output_folder f =
       ep_output_folder @ ''/eddypro_full_cospectra/*'' @ pattern_spec f @ ''*.csv''" by (rule key)
  next
    fix f :: string assume "13 \<le> length f"
    then show "pattern f =
       [f ! 5, f ! 6, f ! 7, f ! 8, f ! 9, f ! 10, f ! 11, f ! 12] @ ''-'' @
       [f ! (length f - 8), f ! (length f - 7), f ! (length f - 6), f ! (length f - 5)]"
      by (rule pattern_long)
  next
    fix f assume a: "Str f \<in> set good_files \<and>
         glob e (ep_output_folder @ ''/eddypro_full_cospectra/*'' @ pattern_spec f @ ''*.csv'') \<noteq> []"
    from 4[OF a] show "pattern_spec f \<in> set (colnames sp)" by blast
    from 4[OF a] show "pattern_spec f \<in> set (colnames co)" by blast
  next
    fix p assume "p \<in> set (colnames sp) \<union> set (colnames co)"
    then show "\<exists>f. Str f \<in> set good_files \<and> p = pattern_spec f \<and>
         glob e (ep_output_folder @ ''/eddypro_full_cospectra/*'' @ pattern_spec f @ ''*.csv'') \<noteq> []"
      by (rule 5)
  qed
qed

theorem pattern_is_merge_key_witness:
  "merge_good_files demo_env demo_good ''out'' = Inr (demo_spectras, demo_cospectras) \<and>
   pattern ''MOFO_20190723-1200.csv'' = pattern_spec ''MOFO_20190723-1200.csv'' \<and>
   pattern_spec ''MOFO_20190723-1200.csv'' = ''20190723-1200'' \<and>
   pattern_spec ''MOFO_20190723-1200.csv'' \<in> set (colnames demo_spectras) \<and>
   pattern_spec ''MOFO_20190723-1200.csv'' \<in> set (colnames demo_cospectras)"
proof -
  have run: "merge_good_files demo_env demo_good ''out'' = Inr (demo_spectras, demo_cospectras)"
    by code_simp
  have f: "Str ''MOFO_20190723-1200.csv'' \<in> set demo_good \<and>
       glob demo_env (''out'' @ ''/eddypro_full_cospectra/*'' @
          pattern_spec ''MOFO_20190723-1200.csv'' @ ''*.csv'') \<noteq> []"
    by code_simp
  have v: "pattern_spec ''MOFO_20190723-1200.csv'' = ''20190723-1200''"
    by code_simp
  from pattern_is_merge_key[OF run] f v run show ?thesis
    by blast
qed



text \<open>
  C8. A file name without a matching (co)spectra file never makes the loop fail: its turn
  leaves both tables as they are, so \<open>merge_good_files\<close> gives the same result as
  on the list without such names, and the two empty tables when no name has a match.
  When \<open>merge_good_files\<close> returns, the pattern of a file name of
  \<open>good_files\<close> is a column of the tables if and only if the glob for that pattern
  finds a file in the \<open>eddypro_full_cospectra\<close> folder.
\<close>

theorem missing_cospectra_file_skipped:
  "(\<forall>acc f. glob e (cospectra_glob ep_output_folder f) = [] \<longrightarrow>
       merge_step e ep_output_folder acc (Str f) = Inr acc) \<and>
   merge_good_files e good_files ep_output_folder =
     merge_good_files e
       (filter (\<lambda>c. case c of Str f \<Rightarrow> has_match e ep_output_folder f | _ \<Rightarrow> True) good_files)
       ep_output_folder \<and>
   ((\<forall>c \<in> set good_files. \<exists>f. c = Str f \<and> \<not> has_match e ep_output_folder f) \<longrightarrow>
      merge_good_files e good_files ep_output_folder = Inr (empty_frame, empty_frame)) \<and>
   (\<forall>sp co. merge_good_files e good_files ep_output_folder = Inr (sp, co) \<longrightarrow>
      (\<forall>f. Str f \<in> set good_files \<longrightarrow>
         (pattern f \<in> set (colnames sp)) = has_match e ep_output_folder f \<and>
         (pattern f \<in> set (colnames co)) = has_match e ep_output_folder f))"
proof -
  let ?keep = "\<lambda>c. case c of Str f \<Rightarrow> has_match e ep_output_folder f | _ \<Rightarrow> True"
  have skip: "merge_step e ep_output_folder acc (Str f) = Inr acc"
    if "glob e (cospectra_glob ep_output_folder f) = []" for acc f
    using that by (rule merge_step_no_match)
  have loop: "merge_loop e ep_output_folder (filter ?keep fs) acc = merge_loop e ep_output_folder fs acc"
    for fs acc
  proof (induction fs arbitrary: acc)
    case Nil
    show ?case by simp
  next
    case (Cons c fs)
    show ?case
    proof (cases "?keep c")
      case True
      have "merge_loop e ep_output_folder (filter ?keep fs) = merge_loop e ep_output_folder fs"
        by (rule ext) (rule Cons.IH)
      with True show ?thesis by simp
    next
      case False
      then obtain f where c: "c = Str f" and "\<not> has_match e ep_output_folder f"
        by (cases c) auto
      then have "merge_step e ep_output_folder acc c = Inr acc"
        by (simp add: has_match_def skip)
      with False show ?thesis by (simp add: Cons.IH ebind_def)
    qed
  qed
  have none: "merge_good_files e good_files ep_output_folder = Inr (empty_frame, empty_frame)"
    if "\<forall>c \<in> set good_files. \<exists>f. c = Str f \<and> \<not> has_match e ep_output_folder f"
  proof -
    from that have "filter ?keep good_files = []"
      by (auto simp: filter_empty_conv)
    with loop[of good_files "(empty_frame, empty_frame)"] show ?thesis
      by (simp add: merge_good_files_def)
  qed
  have iff: "(pattern f \<in> set (colnames sp)) = has_match e ep_output_folder f \<and>
         (pattern f \<in> set (colnames co)) = has_match e ep_output_folder f"
    if m: "merge_good_files e good_files ep_output_folder = Inr (sp, co)"
      and f: "Str f \<in> set good_files" for sp co f
  proof -
    note nm = merge_names[OF m, unfolded names_inv_def fst_conv snd_conv]
    from nm have eq: "colnames sp = colnames co" by blast
    from nm have st: "set (colnames sp) =
         {pattern f | f. Str f \<in> set good_files \<and> has_match e ep_output_folder f}" by blast
    have "(pattern f \<in> set (colnames sp)) = has_match e ep_output_folder f"
    proof
      assume "pattern f \<in> set (colnames sp)"
      then obtain g where "pattern g = pattern f" "has_match e ep_output_folder g"
        unfolding st by auto
      then show "has_match e ep_output_folder f"
        by (simp add: has_match_def cospectra_glob_def)
    next
      assume "has_match e ep_output_folder f"
      with f show "pattern f \<in> set (colnames sp)" unfolding st by blast
    qed
    with eq show ?thesis by simp
  qed
  from skip loop none iff show ?thesis
    unfolding merge_good_files_def[symmetric]
    by (simp add: merge_good_files_def)
qed

theorem missing_cospectra_file_skipped_witness:
  "glob demo_env (cospectra_glob ''out'' ''MOFO_20190723-1300.csv'') = [] \<and>
   merge_step demo_env ''out'' (demo_spectras, demo_cospectras) (Str ''MOFO_20190723-1300.csv'') =
     Inr (demo_spectras, demo_cospectras) \<and>
   merge_good_files demo_env demo_good ''out'' = Inr (demo_spectras, demo_cospectras) \<and>
   Str ''MOFO_20190723-1300.csv'' \<in> set demo_good \<and>
   (pattern ''MOFO_20190723-1300.csv'' \<in> set (colnames demo_spectras)) =
      has_match demo_env ''out'' ''MOFO_20190723-1300.csv'' \<and>
   (pattern ''MOFO_20190723-1300.csv'' \<in> set (colnames demo_cospectras)) =
      has_match demo_env ''out'' ''MOFO_20190723-1300.csv''"
proof -
  have g: "glob demo_env (cospectra_glob ''out'' ''MOFO_20190723-1300.csv'') = []"
    by code_simp
  have run: "merge_good_files demo_env demo_good ''out'' = Inr (demo_spectras, demo_cospectras)"
    by code_simp
  have f: "Str ''MOFO_20190723-1300.csv'' \<in> set demo_good"
    by code_simp
  from missing_cospectra_file_skipped[of demo_env "''out''" demo_good] g run f show ?thesis
    by blast
qed

section \<open>The sentinel and the rows dropped\<close>

lemma read_row_sentinel:
  "read_row e (Some v) w flds = map (na_filter (Some v)) (read_row e None w flds)"
  by (simp add: read_row_def na_filter_def)

lemma length_read_row: "length flds \<le> w \<Longrightarrow> length (read_row e na w flds) = w"
  by (simp add: read_row_def)

lemma column_of_map:
  assumes "\<forall>r \<in> set rows. j < length r"
  shows "column_of (map (map g) rows) j = map g (column_of rows j)"
  using assms by (simp add: column_of_def)

lemma read_csv_sentinel:
  "read_csv e path skip True (Some v) =
     (case read_csv e path skip True None of
        Inl err \<Rightarrow> Inl err
      | Inr raw \<Rightarrow> Inr (map_cells (na_filter (Some v)) raw))"
proof (cases "file_lines e path")
  case None
  then show ?thesis by (simp add: read_csv_def)
next
  case (Some ls)
  show ?thesis
  proof (cases "filter (\<lambda>l. l \<noteq> []) (apply_skiprows skip ls)")
    case Nil
    with Some show ?thesis by (simp add: read_csv_def)
  next
    case (Cons header body)
    show ?thesis
    proof (cases "\<not> distinct header \<or> list_ex (\<lambda>r. length header < length r) body")
      case True
      with Some Cons show ?thesis by (simp add: read_csv_def)
    next
      case False
      define rows where "rows = map (read_row e None (length header)) body"
      have rs: "map (read_row e (Some v) (length header)) body = map (map (na_filter (Some v))) rows"
        by (simp add: rows_def read_row_sentinel)
      from False have "\<forall>r \<in> set body. length r \<le> length header"
        by (auto simp: list_ex_iff not_less)
      then have len: "\<forall>r \<in> set rows. length r = length header"
        by (auto simp: rows_def length_read_row)
      have col: "column_of (map (map (na_filter (Some v))) rows) j =
                 map (na_filter (Some v)) (column_of rows j)" if "j < length header" for j
        using len that by (intro column_of_map) auto
      from Cons have "header \<in> set (filter (\<lambda>l. l \<noteq> []) (apply_skiprows skip ls))"
        by simp
      then have "header \<noteq> []" by simp
      then have c0: "column_of (map (map (na_filter (Some v))) rows) 0 =
                 map (na_filter (Some v)) (column_of rows 0)"
        by (intro col) simp
      have cols: "map (\<lambda>j. (header ! j, column_of (map (map (na_filter (Some v))) rows) j)) [1..<length header] =
          map (\<lambda>(n, vs). (n, map (na_filter (Some v)) vs))
            (map (\<lambda>j. (header ! j, column_of rows j)) [1..<length header])"
        by (simp add: col)
      have L: "read_csv e path skip True (Some v) =
          Inr \<lparr>index = column_of (map (map (na_filter (Some v))) rows) 0,
               columns = map (\<lambda>j. (header ! j, column_of (map (map (na_filter (Some v))) rows) j))
                  [1..<length header]\<rparr>"
        unfolding read_csv_def using Some Cons False by (simp add: rs Let_def)
      have R: "read_csv e path skip True None =
          Inr \<lparr>index = column_of rows 0,
               columns = map (\<lambda>j. (header ! j, column_of rows j)) [1..<length header]\<rparr>"
        unfolding read_csv_def using Some Cons False by (simp add: rows_def Let_def)
      show ?thesis
        unfolding L R map_cells_def by (simp only: c0 cols sum.case frame.simps)
    qed
  qed
qed

lemma zip_conv_nth:
  "length ks = length xs \<Longrightarrow> zip ks xs = map (\<lambda>j. (ks ! j, xs ! j)) [0..<length xs]"
  by (rule nth_equalityI) auto

lemma select_positions:
  assumes "length keep = length xs"
  shows "select keep xs = map ((!) xs) (filter (\<lambda>j. keep ! j) [0..<length xs])"
proof -
  have "select keep xs = map snd (filter fst (map (\<lambda>j. (keep ! j, xs ! j)) [0..<length xs]))"
    by (simp only: select_def zip_conv_nth[OF assms])
  also have "\<dots> = map ((!) xs) (filter (\<lambda>j. keep ! j) [0..<length xs])"
    by (simp add: filter_map comp_def)
  finally show ?thesis .
qed

lemma select_kept:
  assumes "length xs = n"
  shows "select (map K [0..<n]) xs = map ((!) xs) (filter K [0..<n])"
proof -
  have "select (map K [0..<n]) xs = map ((!) xs) (filter (\<lambda>j. map K [0..<n] ! j) [0..<length xs])"
    by (rule select_positions) (simp add: assms)
  also have "filter (\<lambda>j. map K [0..<n] ! j) [0..<length xs] = filter K [0..<n]"
    unfolding assms by (rule filter_cong) auto
  finally show ?thesis .
qed

lemma dropna_index: "index (dropna df) = map ((!) (index df)) (kept_rows df)"
  unfolding dropna_def select_rows_def kept_rows_def
  by (simp add: select_kept)

lemma dropna_column:
  assumes "wf_frame df" and "map_of (columns df) name = Some vs"
  shows "map_of (columns (dropna df)) name = Some (map ((!) vs) (kept_rows df))"
proof -
  from map_of_wf[OF assms] have "length vs = length (index df)" .
  then show ?thesis
    unfolding dropna_def kept_rows_def
    by (simp add: map_of_select_rows assms(2) select_kept)
qed

lemma dropna_column_None:
  "map_of (columns df) name = None \<Longrightarrow> map_of (columns (dropna df)) name = None"
  unfolding dropna_def by (simp add: map_of_select_rows)

lemma kept_rows_clean:
  "j \<in> set (kept_rows df) \<Longrightarrow> j < length (index df) \<and> NaN \<notin> set (row_at df j)"
  unfolding kept_rows_def by (auto simp: list_all_iff)

lemma row_at_map_cells:
  assumes "wf_frame df" and "j < length (index df)"
  shows "row_at (map_cells g df) j = map g (row_at df j)"
proof -
  from assms have "\<forall>(n, vs) \<in> set (columns df). j < length vs"
    by (auto simp: wf_frame_def list_all_iff)
  then show ?thesis
    unfolding row_at_def map_cells_def by (auto simp: case_prod_unfold)
qed

lemma map_of_map_cells:
  "map_of (columns (map_cells g df)) name = map_option (map g) (map_of (columns df) name)"
  unfolding map_cells_def by (simp add: map_of_map_snd)

lemma wf_map_cells: "wf_frame df \<Longrightarrow> wf_frame (map_cells g df)"
  unfolding wf_frame_def map_cells_def by (auto simp: list_all_iff)

lemma column_cell_in_row:
  "map_of (columns df) name = Some col \<Longrightarrow> col ! j \<in> set (row_at df j)"
  unfolding row_at_def by (force dest: map_of_SomeD)

lemma na_filter_clean:
  "na_filter (Some v) c \<noteq> NaN \<Longrightarrow> c \<noteq> NaN \<and> c \<noteq> Num v \<and> na_filter (Some v) c = c"
  by (auto simp: na_filter_def)

lemma file_series_clean:
  assumes fs: "file_series e path name = Inr s" and i: "i < length (fst s)"
  shows "from_clean_row e path name (fst s ! i) (snd s ! i)"
proof -
  let ?nf = "na_filter (Some (- 9999))"
  from fs obtain df vs where r: "read_csv e path (SkipFirst 12) True (Some (- 9999)) = Inr df"
    and m: "map_of (columns (dropna df)) name = Some vs" and s: "s = (index (dropna df), vs)"
    unfolding file_series_Inr_iff by blast
  from r obtain raw where raw: "read_csv e path (SkipFirst 12) True None = Inr raw"
    and df: "df = map_cells ?nf raw"
    using read_csv_sentinel[of e path "SkipFirst 12" "- 9999"]
    by (cases "read_csv e path (SkipFirst 12) True None") simp_all
  have wr: "wf_frame raw" by (rule read_csv_wf[OF raw])
  have wd: "wf_frame df" by (rule read_csv_wf[OF r])
  from m obtain col' where c': "map_of (columns df) name = Some col'"
    using dropna_column_None[of df name] by (cases "map_of (columns df) name") auto
  then obtain col where c: "map_of (columns raw) name = Some col" and cc: "col' = map ?nf col"
    unfolding df map_of_map_cells by auto
  from dropna_column[OF wd c'] m have vs: "vs = map ((!) col') (kept_rows df)" by simp
  have ix: "fst s = map ((!) (index df)) (kept_rows df)"
    by (simp add: s dropna_index)
  define j where "j = kept_rows df ! i"
  from i ix have ik: "i < length (kept_rows df)" by simp
  then have "j \<in> set (kept_rows df)" by (simp add: j_def)
  from kept_rows_clean[OF this] have jl: "j < length (index df)" and cl: "NaN \<notin> set (row_at df j)"
    by simp_all
  have lr: "length (index df) = length (index raw)" by (simp add: df map_cells_def)
  with jl have jr: "j < length (index raw)" by simp
  have row: "row_at df j = map ?nf (row_at raw j)"
    unfolding df by (rule row_at_map_cells[OF wr jr])
  have clean: "\<forall>c \<in> set (row_at raw j). c \<noteq> NaN \<and> c \<noteq> Num (- 9999)"
  proof
    fix c assume "c \<in> set (row_at raw j)"
    then have "?nf c \<in> set (row_at df j)" by (simp add: row)
    with cl have "?nf c \<noteq> NaN" by auto
    from na_filter_clean[OF this] show "c \<noteq> NaN \<and> c \<noteq> Num (- 9999)" by simp
  qed
  have lc: "length col = length (index raw)" by (rule map_of_wf[OF wr c])
  have "col ! j \<in> set (row_at raw j)" by (rule column_cell_in_row[OF c])
  from clean[rule_format, OF this] have cj: "?nf (col ! j) = col ! j" by (simp add: na_filter_def)
  have k: "fst s ! i = ?nf (index raw ! j)"
    using ik jr by (simp add: ix j_def df map_cells_def)
  have v: "snd s ! i = col ! j"
    using ik jr lc cj by (simp add: s vs cc j_def)
  show ?thesis
    unfolding from_clean_row_def
    by (intro exI[of _ raw] exI[of _ col] exI[of _ j] conjI raw c jr k v clean)
qed

lemma align_nth:
  assumes "vs = align idx s" and "length (snd s) = length (fst s)" and "i < length idx"
    and "vs ! i \<noteq> NaN"
  shows "\<exists>j < length (fst s). fst s ! j = idx ! i \<and> snd s ! j = vs ! i"
proof (cases "fst s = idx")
  case True
  with assms show ?thesis by (auto simp: align_def)
next
  case False
  with assms(1,3) have v: "vs ! i =
      (case map_of (zip (fst s) (snd s)) (idx ! i) of None \<Rightarrow> NaN | Some v \<Rightarrow> v)"
    by (simp add: align_def reindex_def)
  with assms(4) obtain v where "map_of (zip (fst s) (snd s)) (idx ! i) = Some v" and "vs ! i = v"
    by (cases "map_of (zip (fst s) (snd s)) (idx ! i)") auto
  then have "(idx ! i, vs ! i) \<in> set (zip (fst s) (snd s))"
    by (auto dest: map_of_SomeD)
  then show ?thesis
    using assms(2) by (auto simp: in_set_zip)
qed

lemma taken_clean:
  assumes t: "taken e folder seen name df" and mem: "(p, vs) \<in> set (columns df)"
    and i: "i < length (index df)" and v: "vs ! i \<noteq> NaN"
  shows "\<exists>f path rest. Str f \<in> set seen \<and> pattern f = p \<and>
           glob e (cospectra_glob folder f) = path # rest \<and>
           from_clean_row e path name (index df ! i) (vs ! i)"
proof -
  from t mem obtain s where src: "source_of e folder seen name p s"
    and al: "vs = align (index df) s"
    unfolding taken_def by blast
  from src obtain f path rest where f: "Str f \<in> set seen" "pattern f = p"
    "glob e (cospectra_glob folder f) = path # rest" and fs: "file_series e path name = Inr s"
    unfolding source_of_def by blast
  from align_nth[OF al file_series_wf[OF fs] i v] obtain j where
    j: "j < length (fst s)" "fst s ! j = index df ! i" "snd s ! j = vs ! i" by blast
  from file_series_clean[OF fs j(1)] j(2,3)
  have "from_clean_row e path name (index df ! i) (vs ! i)" by simp
  with f show ?thesis by blast
qed

lemma from_clean_row_no_sentinel:
  assumes "from_clean_row e path name k v"
  shows "v \<noteq> Num (- 9999) \<and> v \<noteq> NaN"
proof -
  from assms obtain raw col j where c: "map_of (columns raw) name = Some col" and v: "v = col ! j"
    and cl: "\<forall>c \<in> set (row_at raw j). c \<noteq> NaN \<and> c \<noteq> Num (- 9999)"
    unfolding from_clean_row_def by blast
  have "col ! j \<in> set (row_at raw j)" by (rule column_cell_in_row[OF c])
  from cl[rule_format, OF this] show ?thesis unfolding v by simp
qed

lemma taken_no_sentinel:
  assumes t: "taken e folder seen name df" and mem: "(p, vs) \<in> set (columns df)"
  shows "Num (- 9999) \<notin> set vs"
proof
  assume "Num (- 9999) \<in> set vs"
  then obtain i where i: "i < length vs" and vi: "vs ! i = Num (- 9999)"
    by (auto simp: in_set_conv_nth)
  from t mem have "length vs = length (index df)"
    by (auto simp: taken_def wf_frame_def list_all_iff)
  with i have "i < length (index df)" by simp
  from taken_clean[OF t mem this] vi obtain path where
    "from_clean_row e path name (index df ! i) (Num (- 9999))" by auto
  from from_clean_row_no_sentinel[OF this] show False by simp
qed

lemma kept_rows_iff:
  "j \<in> set (kept_rows df) \<longleftrightarrow> j < length (index df) \<and> NaN \<notin> set (row_at df j)"
  unfolding kept_rows_def by (auto simp: list_all_iff)

lemma file_series_label:
  assumes "file_series e path name = Inr s"
  shows "Num (- 9999) \<notin> set (fst s)"
proof -
  from assms obtain df where r: "read_csv e path (SkipFirst 12) True (Some (- 9999)) = Inr df"
    and s: "fst s = index (dropna df)"
    unfolding file_series_Inr_iff by auto
  from r obtain raw where df: "df = map_cells (na_filter (Some (- 9999))) raw"
    using read_csv_sentinel[of e path "SkipFirst 12" "- 9999"]
    by (cases "read_csv e path (SkipFirst 12) True None") auto
  have "Num (- 9999) \<notin> set (index df)"
    unfolding df map_cells_def by (auto simp: na_filter_def split: if_splits)
  moreover have "set (index (dropna df)) \<subseteq> set (index df)"
    unfolding dropna_index using kept_rows_clean[of _ df] by auto
  ultimately show ?thesis unfolding s by blast
qed

lemma taken_label:
  assumes "taken e folder seen name df"
  shows "Num (- 9999) \<notin> set (index df)"
proof (cases "index df = []")
  case True
  then show ?thesis by simp
next
  case False
  with assms obtain p s where "source_of e folder seen name p s" and i: "fst s = index df"
    unfolding taken_def by blast
  then obtain path where "file_series e path name = Inr s"
    unfolding source_of_def by blast
  from file_series_label[OF this] i show ?thesis by simp
qed

text \<open>
  C2, as the script behaves. Read by \<open>merge_good_files\<close>, a (co)spectra file gives
  the table it gives without a sentinel, with every cell of value -9999 replaced by the
  missing value, the frequency labels included. \<open>dropna\<close> keeps, in order, exactly
  the rows that hold no missing value in any data column, that is in any column but the
  frequency column, which is the index of the table and is not looked at. So every value
  of the two merged tables that is not missing is the value of a file row that holds no
  -9999 and no missing value in any data column, found in the file of a file name of
  \<open>good_files\<close> under the same label, the label being that row's frequency as read
  with the sentinel (missing when the frequency cell is -9999); and the number -9999
  occurs in no column and in no index of the merged tables.
\<close>

theorem sentinel_rows_dropped:
  assumes "merge_good_files e good_files ep_output_folder = Inr (sp, co)"
  shows
   "(\<forall>path raw. read_csv e path (SkipFirst 12) True None = Inr raw \<longrightarrow>
        read_csv e path (SkipFirst 12) True (Some (- 9999)) =
          Inr (map_cells (\<lambda>c. if c = Num (- 9999) then NaN else c) raw)) \<and>
    (\<forall>df. wf_frame df \<longrightarrow>
        index (dropna df) = map ((!) (index df)) (kept_rows df) \<and>
        (\<forall>name vs. map_of (columns df) name = Some vs \<longrightarrow>
            map_of (columns (dropna df)) name = Some (map ((!) vs) (kept_rows df))) \<and>
        (\<forall>j. j \<in> set (kept_rows df) \<longleftrightarrow> j < length (index df) \<and> NaN \<notin> set (row_at df j))) \<and>
    (\<forall>(p, vs) \<in> set (columns sp). \<forall>i < length (index sp). vs ! i \<noteq> NaN \<longrightarrow>
        (\<exists>f path rest. Str f \<in> set good_files \<and> pattern f = p \<and>
           glob e (cospectra_glob ep_output_folder f) = path # rest \<and>
           from_clean_row e path ''f_nat*spec(ts)'' (index sp ! i) (vs ! i))) \<and>
    (\<forall>(p, vs) \<in> set (columns co). \<forall>i < length (index co). vs ! i \<noteq> NaN \<longrightarrow>
        (\<exists>f path rest. Str f \<in> set good_files \<and> pattern f = p \<and>
           glob e (cospectra_glob ep_output_folder f) = path # rest \<and>
           from_clean_row e path ''f_nat*cospec(w_ts)'' (index co ! i) (vs ! i))) \<and>
    (\<forall>(p, vs) \<in> set (columns sp) \<union> set (columns co). Num (- 9999) \<notin> set vs) \<and>
    Num (- 9999) \<notin> set (index sp) \<and> Num (- 9999) \<notin> set (index co)"
proof -
  note mi = merged_inv_result[OF assms, unfolded merged_inv_def fst_conv snd_conv]
  from mi have t1: "taken e ep_output_folder good_files ''f_nat*spec(ts)'' sp"
    and t2: "taken e ep_output_folder good_files ''f_nat*cospec(w_ts)'' co" by blast+
  have nf: "na_filter (Some (- 9999)) = (\<lambda>c. if c = Num (- 9999) then NaN else c)"
    by (rule ext) (simp add: na_filter_def)
  have 1: "\<forall>path raw. read_csv e path (SkipFirst 12) True None = Inr raw \<longrightarrow>
        read_csv e path (SkipFirst 12) True (Some (- 9999)) =
          Inr (map_cells (\<lambda>c. if c = Num (- 9999) then NaN else c) raw)"
    by (simp add: read_csv_sentinel nf)
  have 2: "\<forall>df. wf_frame df \<longrightarrow>
        index (dropna df) = map ((!) (index df)) (kept_rows df) \<and>
        (\<forall>name vs. map_of (columns df) name = Some vs \<longrightarrow>
            map_of (columns (dropna df)) name = Some (map ((!) vs) (kept_rows df))) \<and>
        (\<forall>j. j \<in> set (kept_rows df) \<longleftrightarrow> j < length (index df) \<and> NaN \<notin> set (row_at df j))"
    using dropna_index dropna_column kept_rows_iff by blast
  have 3: "\<forall>(p, vs) \<in> set (columns sp). \<forall>i < length (index sp). vs ! i \<noteq> NaN \<longrightarrow>
        (\<exists>f path rest. Str f \<in> set good_files \<and> pattern f = p \<and>
           glob e (cospectra_glob ep_output_folder f) = path # rest \<and>
           from_clean_row e path ''f_nat*spec(ts)'' (index sp ! i) (vs ! i))"
    using taken_clean[OF t1] by blast
  have 4: "\<forall>(p, vs) \<in> set (columns co). \<forall>i < length (index co). vs ! i \<noteq> NaN \<longrightarrow>
        (\<exists>f path rest. Str f \<in> set good_files \<and> pattern f = p \<and>
           glob e (cospectra_glob ep_output_folder f) = path # rest \<and>
           from_clean_row e path ''f_nat*cospec(w_ts)'' (index co ! i) (vs ! i))"
    using taken_clean[OF t2] by blast
  have 5: "\<forall>(p, vs) \<in> set (columns sp) \<union> set (columns co). Num (- 9999) \<notin> set vs"
    using taken_no_sentinel[OF t1] taken_no_sentinel[OF t2] by blast
  have 6: "Num (- 9999) \<notin> set (index sp)" by (rule taken_label[OF t1])
  have 7: "Num (- 9999) \<notin> set (index co)" by (rule taken_label[OF t2])
  show ?thesis by (intro conjI 1 2 3 4 5 6 7)
qed

theorem sentinel_rows_dropped_witness:
  "merge_good_files demo_env demo_good ''out'' = Inr (demo_spectras, demo_cospectras) \<and>
   read_csv demo_env ''out/eddypro_full_cospectra/20190723-1200_full_cospectra.csv''
      (SkipFirst 12) True None =
     Inr \<lparr>index = [Num 1, Num 2, Num 3],
          columns = [(''f_nat*spec(ts)'', [Num 2, Num (- 9999), Num 1]),
                     (''f_nat*cospec(w_ts)'', [Num 3, Num 1, Num 2])]\<rparr> \<and>
   Num (- 9999) \<notin> set [Num 2, Num 1] \<and>
   (\<exists>f path rest. Str f \<in> set demo_good \<and> pattern f = ''20190723-1200'' \<and>
      glob demo_env (cospectra_glob ''out'' f) = path # rest \<and>
      from_clean_row demo_env path ''f_nat*spec(ts)'' (index demo_spectras ! 1)
        ([Num 2, Num 1] ! 1))"
proof -
  have run: "merge_good_files demo_env demo_good ''out'' = Inr (demo_spectras, demo_cospectras)"
    by code_simp
  have raw: "read_csv demo_env ''out/eddypro_full_cospectra/20190723-1200_full_cospectra.csv''
      (SkipFirst 12) True None =
     Inr \<lparr>index = [Num 1, Num 2, Num 3],
          columns = [(''f_nat*spec(ts)'', [Num 2, Num (- 9999), Num 1]),
                     (''f_nat*cospec(w_ts)'', [Num 3, Num 1, Num 2])]\<rparr>"
    by code_simp
  have c: "(''20190723-1200'', [Num 2, Num 1]) \<in> set (columns demo_spectras)"
    by code_simp
  have i: "1 < length (index demo_spectras)" by code_simp
  have v: "[Num 2, Num 1] ! 1 \<noteq> NaN" by simp
  note inst = sentinel_rows_dropped[OF run]
  from inst have 3: "\<forall>(p, vs) \<in> set (columns demo_spectras).
      \<forall>i < length (index demo_spectras). vs ! i \<noteq> NaN \<longrightarrow>
        (\<exists>f path rest. Str f \<in> set demo_good \<and> pattern f = p \<and>
           glob demo_env (cospectra_glob ''out'' f) = path # rest \<and>
           from_clean_row demo_env path ''f_nat*spec(ts)'' (index demo_spectras ! i) (vs ! i))"
    by blast
  from inst have 5: "\<forall>(p, vs) \<in> set (columns demo_spectras) \<union> set (columns demo_cospectras).
      Num (- 9999) \<notin> set vs"
    by blast
  from 5 c have a: "Num (- 9999) \<notin> set [Num 2, Num 1]" by blast
  from 3 c i v have b: "\<exists>f path rest. Str f \<in> set demo_good \<and> pattern f = ''20190723-1200'' \<and>
      glob demo_env (cospectra_glob ''out'' f) = path # rest \<and>
      from_clean_row demo_env path ''f_nat*spec(ts)'' (index demo_spectras ! 1)
        ([Num 2, Num 1] ! 1)"
    by blast
  from run raw a b show ?thesis by (intro conjI)
qed

text \<open>
  C2 as it is worded fails for a row whose frequency cell is the sentinel. In the file of
  \<open>label_env\<close> the second row is \<open>-9999, 4, 5\<close>: its frequency is read as
  missing, but \<open>dropna\<close> does not look at the index, so the row is kept, and its
  values 4 and 5 stand in the merged spectra and cospectra tables under a missing label.
\<close>

theorem sentinel_frequency_counterexample:
  "read_csv label_env ''out/eddypro_full_cospectra/20190723-1200_full_cospectra.csv''
      (SkipFirst 12) True None =
     Inr \<lparr>index = [Num 1, Num (- 9999), Num 3],
          columns = [(''f_nat*spec(ts)'', [Num 2, Num 4, Num 1]),
                     (''f_nat*cospec(w_ts)'', [Num 3, Num 5, Num 2])]\<rparr> \<and>
   merge_good_files label_env [Str ''MOFO_20190723-1200.csv''] ''out'' =
     Inr (\<lparr>index = [Num 1, NaN, Num 3],
           columns = [(''20190723-1200'', [Num 2, Num 4, Num 1])]\<rparr>,
          \<lparr>index = [Num 1, NaN, Num 3],
           columns = [(''20190723-1200'', [Num 3, Num 5, Num 2])]\<rparr>)"
  by code_simp

section \<open>The plots\<close>

subsection \<open>The state of pyplot\<close>

lemma map_of_on_keys:
  "map_of (map (\<lambda>(n, fig). if c = Some n then (n, upd fig) else (n, fig)) figs) k =
   map_option (\<lambda>fig. if c = Some k then upd fig else fig) (map_of figs k)"
  by (induction figs) auto

lemma lines_of_on_current:
  "lines_of (on_current upd st) k =
     (case map_of (figures st) k of
        None \<Rightarrow> []
      | Some fig \<Rightarrow> if current st = Some k then lines (upd fig) else lines fig)"
  unfolding lines_of_def on_current_def
  by (simp add: map_of_on_keys split: option.splits)

lemma current_on_current: "current (on_current upd st) = current st"
  by (simp add: on_current_def)

lemma keys_on_current: "map fst (figures (on_current upd st)) = map fst (figures st)"
  unfolding on_current_def by (induction "figures st" arbitrary: st) (auto simp: case_prod_unfold)

lemma map_of_None_on_current:
  "map_of (figures (on_current upd st)) k = None \<longleftrightarrow> map_of (figures st) k = None"
  unfolding on_current_def by (simp add: map_of_on_keys)

lemma lines_of_plt_plot:
  "lines_of (plt_plot l st) k =
     (if current st = Some k \<and> map_of (figures st) k \<noteq> None then lines_of st k @ [l]
      else lines_of st k)"
  unfolding plt_plot_def lines_of_on_current
  by (auto simp: lines_of_def split: option.splits)

lemma map_of_snoc:
  "map_of (figs @ [(n, fig)]) k =
     (case map_of figs k of Some v \<Rightarrow> Some v | None \<Rightarrow> if k = n then Some fig else None)"
  by (induction figs) auto

lemma lines_of_plt_figure: "lines_of (plt_figure n st) k = lines_of st k"
proof (cases "map_of (figures st) n")
  case None
  then show ?thesis
    unfolding plt_figure_def lines_of_def
    by (cases "k = n") (simp_all add: map_of_snoc new_figure_def del: map_of_append split: option.splits)
next
  case (Some fig)
  then show ?thesis
    unfolding plt_figure_def lines_of_def by simp
qed

lemma current_plt_figure: "current (plt_figure n st) = Some n"
  unfolding plt_figure_def by (simp split: option.splits)

lemma has_plt_figure: "map_of (figures (plt_figure n st)) n \<noteq> None"
proof (cases "map_of (figures st) n")
  case None
  then show ?thesis
    unfolding plt_figure_def by (simp add: map_of_snoc del: map_of_append)
next
  case (Some fig)
  then show ?thesis
    unfolding plt_figure_def by simp
qed

lemma lines_of_keep:
  assumes "\<And>fig. lines (upd fig) = lines fig"
  shows "lines_of (on_current upd st) k = lines_of st k"
proof -
  have "lines_of (on_current upd st) k =
      (case map_of (figures st) k of None \<Rightarrow> [] | Some fig \<Rightarrow> lines fig)"
    by (simp add: lines_of_on_current assms split: option.splits)
  then show ?thesis by (simp add: lines_of_def)
qed

lemma lines_of_savefig: "lines_of (plt_savefig outfile st) k = lines_of st k"
proof (cases outfile)
  case None
  then show ?thesis by (simp add: plt_savefig_def)
next
  case (Some path)
  show ?thesis
  proof (cases "path = []")
    case True
    with Some show ?thesis by (simp add: plt_savefig_def)
  next
    case False
    have "lines_of (on_current (\<lambda>fig. fig\<lparr>savefig := savefig fig @ [path]\<rparr>) st) k = lines_of st k"
      by (rule lines_of_keep) simp
    with Some False show ?thesis by (simp add: plt_savefig_def)
  qed
qed

lemma lines_of_tweak: "lines_of (tweak_plot ylab outfile st) k = lines_of st k"
proof -
  have "lines_of (on_current (\<lambda>fig. fig\<lparr>xscale := ''log'', yscale := ''log'',
      xlabel := ''f (Hz)'', ylabel := ylab, legend := True, tight_layout := True\<rparr>) st) k =
      lines_of st k"
    by (rule lines_of_keep) simp
  then show ?thesis
    unfolding tweak_plot_def by (simp only: lines_of_savefig)
qed

lemma lines_of_show: "lines_of (plt_show st) k = lines_of st k"
  by (simp add: lines_of_def plt_show_def)

lemma current_plt_plot: "current (plt_plot l st) = current st"
  by (simp add: plt_plot_def current_on_current)

lemma has_plt_plot: "map_of (figures (plt_plot l st)) k = None \<longleftrightarrow> map_of (figures st) k = None"
  by (simp add: plt_plot_def map_of_None_on_current)

lemma median_axis1_Inr: "median_axis1 df = Inr m \<Longrightarrow> m = (index df, row_medians df)"
  by (auto simp: median_axis1_def row_medians_def Let_def split: if_splits)

lemma median_axis1_no_text:
  "\<not> list_ex has_text (map (row_at df) [0..<length (index df)]) \<Longrightarrow>
   median_axis1 df = Inr (index df, row_medians df)"
  by (simp add: median_axis1_def row_medians_def Let_def)

lemma plot_spectras_Inr_iff:
  "plot_spectras lowess df outfile st = Inr st' \<longleftrightarrow>
   (\<exists>m sm. median_axis1 df = Inr m \<and> lowess (snd m) (index df) True 0.01 0 = Inr sm \<and>
      st' = tweak_plot ''spectra (T)'' outfile
              (plt_plot (lowess_line (drop 40 sm)) (plt_plot (median_line m) (plt_figure 1 st))))"
proof (cases "median_axis1 df")
  case (Inl err)
  then show ?thesis by (simp add: plot_spectras_def ebind_def)
next
  case (Inr m)
  then show ?thesis
    by (auto simp: plot_spectras_def ebind_Inr_iff Let_def median_line_def lowess_line_def)
qed

lemma plot_cospectras_Inr_iff:
  "plot_cospectras lowess df outfile st = Inr st' \<longleftrightarrow>
   (\<exists>m sm. median_axis1 df = Inr m \<and> lowess (snd m) (index df) True 0.05 0 = Inr sm \<and>
      st' = tweak_plot ''cospectra (w/T)'' outfile
              (plt_plot ideal_slope
                (plt_plot (lowess_line sm) (plt_plot (median_line m) (plt_figure 2 st)))))"
proof (cases "median_axis1 df")
  case (Inl err)
  then show ?thesis by (simp add: plot_cospectras_def ebind_def)
next
  case (Inr m)
  then show ?thesis
    by (auto simp: plot_cospectras_def ebind_Inr_iff Let_def median_line_def lowess_line_def)
qed

lemma lines_after_two:
  "lines_of (plt_plot l2 (plt_plot l1 (plt_figure n st))) k =
     (if k = n then lines_of st n @ [l1, l2] else lines_of st k)"
  by (simp add: lines_of_plt_plot current_plt_plot has_plt_plot current_plt_figure
       has_plt_figure lines_of_plt_figure)

lemma lines_after_three:
  "lines_of (plt_plot l3 (plt_plot l2 (plt_plot l1 (plt_figure n st)))) k =
     (if k = n then lines_of st n @ [l1, l2, l3] else lines_of st k)"
  by (simp add: lines_of_plt_plot current_plt_plot has_plt_plot current_plt_figure
       has_plt_figure lines_of_plt_figure)

lemma plot_spectras_lines:
  assumes "plot_spectras lowess df outfile st = Inr st'"
  shows "\<exists>sm. lowess (row_medians df) (index df) True 0.01 0 = Inr sm \<and>
           median_axis1 df = Inr (index df, row_medians df) \<and>
           (\<forall>k. lines_of st' k =
              (if k = 1 then lines_of st 1 @
                   [median_line (index df, row_medians df), lowess_line (drop 40 sm)]
               else lines_of st k))"
proof -
  from assms obtain m sm where m: "median_axis1 df = Inr m"
    and sm: "lowess (snd m) (index df) True 0.01 0 = Inr sm"
    and st': "st' = tweak_plot ''spectra (T)'' outfile
              (plt_plot (lowess_line (drop 40 sm)) (plt_plot (median_line m) (plt_figure 1 st)))"
    unfolding plot_spectras_Inr_iff by blast
  from median_axis1_Inr[OF m] have me: "m = (index df, row_medians df)" .
  have "lines_of st' k =
      (if k = 1 then lines_of st 1 @ [median_line m, lowess_line (drop 40 sm)] else lines_of st k)"
    for k
    unfolding st' lines_of_tweak by (rule lines_after_two)
  with m sm show ?thesis unfolding me by auto
qed

lemma plot_cospectras_lines:
  assumes "plot_cospectras lowess df outfile st = Inr st'"
  shows "\<exists>sm. lowess (row_medians df) (index df) True 0.05 0 = Inr sm \<and>
           median_axis1 df = Inr (index df, row_medians df) \<and>
           (\<forall>k. lines_of st' k =
              (if k = 2 then lines_of st 2 @
                   [median_line (index df, row_medians df), lowess_line sm, ideal_slope]
               else lines_of st k))"
proof -
  from assms obtain m sm where m: "median_axis1 df = Inr m"
    and sm: "lowess (snd m) (index df) True 0.05 0 = Inr sm"
    and st': "st' = tweak_plot ''cospectra (w/T)'' outfile
              (plt_plot ideal_slope
                (plt_plot (lowess_line sm) (plt_plot (median_line m) (plt_figure 2 st))))"
    unfolding plot_cospectras_Inr_iff by blast
  from median_axis1_Inr[OF m] have me: "m = (index df, row_medians df)" .
  have "lines_of st' k =
      (if k = 2 then lines_of st 2 @ [median_line m, lowess_line sm, ideal_slope]
       else lines_of st k)"
    for k
    unfolding st' lines_of_tweak by (rule lines_after_three)
  with m sm show ?thesis unfolding me by auto
qed

lemma keys_plt_plot: "map fst (figures (plt_plot l st)) = map fst (figures st)"
  by (simp add: plt_plot_def keys_on_current)

lemma keys_plt_savefig: "map fst (figures (plt_savefig outfile st)) = map fst (figures st)"
  by (simp add: plt_savefig_def keys_on_current split: option.splits)

lemma current_plt_savefig: "current (plt_savefig outfile st) = current st"
  by (simp add: plt_savefig_def current_on_current split: option.splits)

lemma shown_on_current: "shown (on_current upd st) = shown st"
  by (simp add: on_current_def)

lemma shown_plt_savefig: "shown (plt_savefig outfile st) = shown st"
  by (simp add: plt_savefig_def shown_on_current split: option.splits)

lemma keys_tweak: "map fst (figures (tweak_plot ylab outfile st)) = map fst (figures st)"
  by (simp add: tweak_plot_def keys_plt_savefig keys_on_current)

lemma current_tweak: "current (tweak_plot ylab outfile st) = current st"
  by (simp add: tweak_plot_def current_plt_savefig current_on_current)

lemma shown_tweak: "shown (tweak_plot ylab outfile st) = shown st"
  by (simp add: tweak_plot_def shown_plt_savefig shown_on_current)

lemma shown_plt_plot: "shown (plt_plot l st) = shown st"
  by (simp add: plt_plot_def shown_on_current)

lemma shown_plt_figure: "shown (plt_figure n st) = shown st"
  by (simp add: plt_figure_def split: option.splits)

lemma keys_plt_figure:
  "map fst (figures (plt_figure n st)) =
     (if n \<in> set (map fst (figures st)) then map fst (figures st) else map fst (figures st) @ [n])"
proof (cases "map_of (figures st) n")
  case None
  then have "n \<notin> set (map fst (figures st))" by (simp add: map_of_eq_None_iff)
  with None show ?thesis by (simp add: plt_figure_def)
next
  case (Some fig)
  then have "n \<in> set (map fst (figures st))" by (auto dest: map_of_SomeD intro: rev_image_eqI)
  with Some show ?thesis by (simp add: plt_figure_def)
qed

lemma plot_spectras_state:
  assumes "plot_spectras lowess df outfile st = Inr st'"
  shows "map fst (figures st') =
       (if 1 \<in> set (map fst (figures st)) then map fst (figures st) else map fst (figures st) @ [1])"
    and "current st' = Some 1" and "shown st' = shown st"
proof -
  from assms obtain m sm where
    st': "st' = tweak_plot ''spectra (T)'' outfile
              (plt_plot (lowess_line (drop 40 sm)) (plt_plot (median_line m) (plt_figure 1 st)))"
    unfolding plot_spectras_Inr_iff by blast
  show "map fst (figures st') =
       (if 1 \<in> set (map fst (figures st)) then map fst (figures st) else map fst (figures st) @ [1])"
    unfolding st' keys_tweak keys_plt_plot by (rule keys_plt_figure)
  show "current st' = Some 1"
    unfolding st' current_tweak current_plt_plot by (rule current_plt_figure)
  show "shown st' = shown st"
    unfolding st' shown_tweak shown_plt_plot by (rule shown_plt_figure)
qed

lemma plot_cospectras_state:
  assumes "plot_cospectras lowess df outfile st = Inr st'"
  shows "map fst (figures st') =
       (if 2 \<in> set (map fst (figures st)) then map fst (figures st) else map fst (figures st) @ [2])"
    and "current st' = Some 2" and "shown st' = shown st"
proof -
  from assms obtain m sm where
    st': "st' = tweak_plot ''cospectra (w/T)'' outfile
              (plt_plot ideal_slope
                (plt_plot (lowess_line sm) (plt_plot (median_line m) (plt_figure 2 st))))"
    unfolding plot_cospectras_Inr_iff by blast
  show "map fst (figures st') =
       (if 2 \<in> set (map fst (figures st)) then map fst (figures st) else map fst (figures st) @ [2])"
    unfolding st' keys_tweak keys_plt_plot by (rule keys_plt_figure)
  show "current st' = Some 2"
    unfolding st' current_tweak current_plt_plot by (rule current_plt_figure)
  show "shown st' = shown st"
    unfolding st' shown_tweak shown_plt_plot by (rule shown_plt_figure)
qed

lemma main_Inr_iff:
  "main e lowess = Inr final \<longleftrightarrow>
     (\<exists>good sp co st1 st2.
        get_good_files e main_folder = Inr good \<and>
        merge_good_files e good main_folder = Inr (sp, co) \<and>
        plot_spectras lowess sp None plt_init = Inr st1 \<and>
        plot_cospectras lowess co None st1 = Inr st2 \<and>
        final = plt_show st2)"
  unfolding main_def by (auto simp: ebind_Inr_iff)

lemma lines_of_init: "lines_of plt_init k = []"
  by (simp add: lines_of_def plt_init_def)

lemma main_lines:
  assumes "main e lowess = Inr final"
  shows "\<exists>sp co sm1 sm2.
      lines_of final 1 = [median_line (index sp, row_medians sp), lowess_line (drop 40 sm1)] \<and>
      lines_of final 2 = [median_line (index co, row_medians co), lowess_line sm2, ideal_slope]"
proof -
  from assms obtain good sp co st1 st2 where
    p1: "plot_spectras lowess sp None plt_init = Inr st1" and
    p2: "plot_cospectras lowess co None st1 = Inr st2" and
    f: "final = plt_show st2"
    unfolding main_Inr_iff by blast
  from plot_spectras_lines[OF p1] obtain sm1 where
    l1: "\<forall>k. lines_of st1 k =
        (if k = 1 then lines_of plt_init 1 @
             [median_line (index sp, row_medians sp), lowess_line (drop 40 sm1)]
         else lines_of plt_init k)" by blast
  from plot_cospectras_lines[OF p2] obtain sm2 where
    l2: "\<forall>k. lines_of st2 k =
        (if k = 2 then lines_of st1 2 @
             [median_line (index co, row_medians co), lowess_line sm2, ideal_slope]
         else lines_of st1 k)" by blast
  have "lines_of final 1 = [median_line (index sp, row_medians sp), lowess_line (drop 40 sm1)]"
    unfolding f lines_of_show using l1 l2 by (simp add: lines_of_init)
  moreover have "lines_of final 2 =
      [median_line (index co, row_medians co), lowess_line sm2, ideal_slope]"
    unfolding f lines_of_show using l1 l2 by (simp add: lines_of_init)
  ultimately show ?thesis by blast
qed

lemma main_state:
  assumes "main e lowess = Inr final"
  shows "map fst (figures final) = [1, 2]" and "current final = Some 2" and "shown final"
proof -
  from assms obtain good sp co st1 st2 where
    p1: "plot_spectras lowess sp None plt_init = Inr st1" and
    p2: "plot_cospectras lowess co None st1 = Inr st2" and
    f: "final = plt_show st2"
    unfolding main_Inr_iff by blast
  from plot_spectras_state(1)[OF p1] have k1: "map fst (figures st1) = [1]"
    by (simp add: plt_init_def)
  from plot_cospectras_state(1)[OF p2] k1 have "map fst (figures st2) = [1, 2]" by simp
  then show "map fst (figures final) = [1, 2]" by (simp add: f plt_show_def)
  from plot_cospectras_state(2)[OF p2] show "current final = Some 2"
    by (simp add: f plt_show_def)
  show "shown final" by (simp add: f plt_show_def)
qed

lemma linspace_facts:
  "length (linspace 0.2 5 50) = 50"
  "hd (linspace 0.2 5 50) = 0.2"
  "last (linspace 0.2 5 50) = 5"
  "\<forall>x \<in> set (linspace 0.2 5 50). 0.2 \<le> x \<and> x \<le> 5"
proof -
  show "length (linspace 0.2 5 50) = 50" by (simp add: linspace_def)
  show "hd (linspace 0.2 5 50) = 0.2" by (simp add: linspace_def hd_map upt_rec[of 0 50])
  show "last (linspace 0.2 5 50) = 5" by (simp add: linspace_def last_map)
  show "\<forall>x \<in> set (linspace 0.2 5 50). 0.2 \<le> x \<and> x \<le> 5"
  proof
    fix x :: real assume "x \<in> set (linspace 0.2 5 50)"
    then obtain i :: nat where i: "i < 50" and x: "x = 0.2 + real i * ((5 - 0.2) / real (50 - 1))"
      by (auto simp: linspace_def)
    from i have "real i \<le> 49" by simp
    then have "real i * (4.8 / 49) \<le> 4.8" by simp
    moreover have "0 \<le> real i * (4.8 / 49)" by simp
    ultimately show "0.2 \<le> x \<and> x \<le> 5" unfolding x by simp
  qed
qed

lemma ideal_slope_fields:
  "xdata ideal_slope = map Num (linspace 0.2 5 50)"
  "ydata ideal_slope = map (\<lambda>x. Num (0.006 * x powr (- 4 / 3))) (linspace 0.2 5 50)"
  "fmt ideal_slope = ''r--''"
  "label ideal_slope = ''-4/3 slope''"
  by (simp_all add: ideal_slope_def Let_def comp_def)

subsection \<open>The median\<close>












text \<open>
  C6. The reference curve \<open>y = 0.006 * x powr (-4/3)\<close> over the 50 points of
  \<open>linspace 0.2 5\<close>, which start at 0.2, end at 5 and lie in between, is the last
  line that \<open>plot_cospectras\<close> draws on figure 2, and \<open>plot_cospectras\<close>
  touches no other figure. \<open>plot_spectras\<close> draws two lines on figure 1, neither
  of them the reference curve, and touches no other figure. After \<open>main\<close> the
  reference curve is on the cospectrum figure and not on the spectrum figure.
\<close>

theorem ideal_slope_only_on_cospectra:
  "xdata ideal_slope = map Num (linspace 0.2 5 50) \<and>
   ydata ideal_slope = map (\<lambda>x. Num (0.006 * x powr (- 4 / 3))) (linspace 0.2 5 50) \<and>
   fmt ideal_slope = ''r--'' \<and> label ideal_slope = ''-4/3 slope'' \<and>
   length (linspace 0.2 5 50) = 50 \<and> hd (linspace 0.2 5 50) = 0.2 \<and>
   last (linspace 0.2 5 50) = 5 \<and>
   (\<forall>x \<in> set (linspace 0.2 5 50). 0.2 \<le> x \<and> x \<le> 5) \<and>
   (\<forall>df outfile st st'. plot_cospectras lowess df outfile st = Inr st' \<longrightarrow>
      last (lines_of st' 2) = ideal_slope \<and> (\<forall>k. k \<noteq> 2 \<longrightarrow> lines_of st' k = lines_of st k)) \<and>
   (\<forall>df outfile st st'. plot_spectras lowess df outfile st = Inr st' \<longrightarrow>
      (\<exists>l1 l2. lines_of st' 1 = lines_of st 1 @ [l1, l2] \<and>
          fmt l1 = ''k.'' \<and> fmt l2 = ''b'' \<and> l1 \<noteq> ideal_slope \<and> l2 \<noteq> ideal_slope) \<and>
      (\<forall>k. k \<noteq> 1 \<longrightarrow> lines_of st' k = lines_of st k)) \<and>
   (\<forall>final. main e lowess = Inr final \<longrightarrow>
      ideal_slope \<in> set (lines_of final 2) \<and> ideal_slope \<notin> set (lines_of final 1) \<and>
      (\<forall>l \<in> set (lines_of final 1). fmt l \<noteq> ''r--'' \<and> label l \<noteq> ''-4/3 slope''))"
proof -
  have ne1: "median_line m \<noteq> ideal_slope" for m
  proof
    assume "median_line m = ideal_slope"
    then have "fmt (median_line m) = fmt ideal_slope" by simp
    then show False by (simp add: median_line_def ideal_slope_fields)
  qed
  have ne2: "lowess_line pts \<noteq> ideal_slope" for pts
  proof
    assume "lowess_line pts = ideal_slope"
    then have "fmt (lowess_line pts) = fmt ideal_slope" by simp
    then show False by (simp add: lowess_line_def ideal_slope_fields)
  qed
  have co: "\<forall>df outfile st st'. plot_cospectras lowess df outfile st = Inr st' \<longrightarrow>
      last (lines_of st' 2) = ideal_slope \<and> (\<forall>k. k \<noteq> 2 \<longrightarrow> lines_of st' k = lines_of st k)"
  proof (intro allI impI)
    fix df outfile st st' assume "plot_cospectras lowess df outfile st = Inr st'"
    from plot_cospectras_lines[OF this] obtain sm where
      l: "\<forall>k. lines_of st' k =
              (if k = 2 then lines_of st 2 @
                   [median_line (index df, row_medians df), lowess_line sm, ideal_slope]
               else lines_of st k)" by blast
    then show "last (lines_of st' 2) = ideal_slope \<and>
       (\<forall>k. k \<noteq> 2 \<longrightarrow> lines_of st' k = lines_of st k)" by simp
  qed
  have sp: "\<forall>df outfile st st'. plot_spectras lowess df outfile st = Inr st' \<longrightarrow>
      (\<exists>l1 l2. lines_of st' 1 = lines_of st 1 @ [l1, l2] \<and>
          fmt l1 = ''k.'' \<and> fmt l2 = ''b'' \<and> l1 \<noteq> ideal_slope \<and> l2 \<noteq> ideal_slope) \<and>
      (\<forall>k. k \<noteq> 1 \<longrightarrow> lines_of st' k = lines_of st k)"
  proof (intro allI impI)
    fix df outfile st st' assume "plot_spectras lowess df outfile st = Inr st'"
    from plot_spectras_lines[OF this] obtain sm where
      l: "\<forall>k. lines_of st' k =
              (if k = 1 then lines_of st 1 @
                   [median_line (index df, row_medians df), lowess_line (drop 40 sm)]
               else lines_of st k)" by blast
    have a: "lines_of st' 1 = lines_of st 1 @
        [median_line (index df, row_medians df), lowess_line (drop 40 sm)]"
      using l by simp
    have b: "fmt (median_line (index df, row_medians df)) = ''k.''"
      by (simp add: median_line_def)
    have c: "fmt (lowess_line (drop 40 sm)) = ''b''"
      by (simp add: lowess_line_def)
    from a b c ne1[of "(index df, row_medians df)"] ne2[of "drop 40 sm"]
    have "lines_of st' 1 = lines_of st 1 @
        [median_line (index df, row_medians df), lowess_line (drop 40 sm)] \<and>
        fmt (median_line (index df, row_medians df)) = ''k.'' \<and>
        fmt (lowess_line (drop 40 sm)) = ''b'' \<and>
        median_line (index df, row_medians df) \<noteq> ideal_slope \<and>
        lowess_line (drop 40 sm) \<noteq> ideal_slope"
      by (intro conjI)
    then have "\<exists>l1 l2. lines_of st' 1 = lines_of st 1 @ [l1, l2] \<and>
          fmt l1 = ''k.'' \<and> fmt l2 = ''b'' \<and> l1 \<noteq> ideal_slope \<and> l2 \<noteq> ideal_slope"
      by blast
    moreover from l have "\<forall>k. k \<noteq> 1 \<longrightarrow> lines_of st' k = lines_of st k" by simp
    ultimately show "(\<exists>l1 l2. lines_of st' 1 = lines_of st 1 @ [l1, l2] \<and>
          fmt l1 = ''k.'' \<and> fmt l2 = ''b'' \<and> l1 \<noteq> ideal_slope \<and> l2 \<noteq> ideal_slope) \<and>
      (\<forall>k. k \<noteq> 1 \<longrightarrow> lines_of st' k = lines_of st k)" by (rule conjI)
  qed
  have mn: "\<forall>final. main e lowess = Inr final \<longrightarrow>
      ideal_slope \<in> set (lines_of final 2) \<and> ideal_slope \<notin> set (lines_of final 1) \<and>
      (\<forall>l \<in> set (lines_of final 1). fmt l \<noteq> ''r--'' \<and> label l \<noteq> ''-4/3 slope'')"
  proof (intro allI impI)
    fix final assume "main e lowess = Inr final"
    from main_lines[OF this] obtain sp co sm1 sm2 where
      l1: "lines_of final 1 =
         [median_line (index sp, row_medians sp), lowess_line (drop 40 sm1)]" and
      l2: "lines_of final 2 =
         [median_line (index co, row_medians co), lowess_line sm2, ideal_slope]" by blast
    show "ideal_slope \<in> set (lines_of final 2) \<and> ideal_slope \<notin> set (lines_of final 1) \<and>
      (\<forall>l \<in> set (lines_of final 1). fmt l \<noteq> ''r--'' \<and> label l \<noteq> ''-4/3 slope'')"
    proof (intro conjI ballI)
      show "ideal_slope \<in> set (lines_of final 2)" unfolding l2 by simp
      show "ideal_slope \<notin> set (lines_of final 1)"
        unfolding l1 using ne1[of "(index sp, row_medians sp)"] ne2[of "drop 40 sm1"]
        by (simp add: neq_commute)
    next
      fix l assume "l \<in> set (lines_of final 1)"
      then have "l = median_line (index sp, row_medians sp) \<or> l = lowess_line (drop 40 sm1)"
        unfolding l1 by simp
      then show "fmt l \<noteq> ''r--''" and "label l \<noteq> ''-4/3 slope''"
        by (auto simp: median_line_def lowess_line_def)
    qed
  qed
  show ?thesis
    by (intro conjI ideal_slope_fields linspace_facts co sp mn)
qed

theorem ideal_slope_only_on_cospectra_witness:
  "\<not> isl (main main_env demo_lowess) \<and>
   (\<exists>final. main main_env demo_lowess = Inr final \<and>
      ideal_slope \<in> set (lines_of final 2) \<and> ideal_slope \<notin> set (lines_of final 1))"
proof -
  have run: "\<not> isl (main main_env demo_lowess)"
    by code_simp
  then obtain final where f: "main main_env demo_lowess = Inr final"
    by (cases "main main_env demo_lowess") simp_all
  from ideal_slope_only_on_cospectra[of demo_lowess main_env] f
  have "ideal_slope \<in> set (lines_of final 2) \<and> ideal_slope \<notin> set (lines_of final 1)"
    by blast
  with run f show ?thesis by blast
qed

section \<open>The pipeline\<close>

text \<open>
  C7. \<open>main\<close> returns exactly when \<open>get_good_files\<close>, then
  \<open>merge_good_files\<close> on its result, then \<open>plot_spectras\<close> on the spectra
  table, then \<open>plot_cospectras\<close> on the cospectra table have each returned, every
  step taking what the step before produced, and the result is the state shown. Each
  plot has then run once: figure 1 and then figure 2 were created, figure 2 is the current
  one, figure 1 holds two lines and figure 2 three. A step that fails ends \<open>main\<close>
  with its error, the later steps not run.
\<close>

theorem main_pipeline_order:
  "(main e lowess = Inr final \<longleftrightarrow>
     (\<exists>good_files good_spectras good_cospectras st1 st2.
        get_good_files e main_folder = Inr good_files \<and>
        merge_good_files e good_files main_folder = Inr (good_spectras, good_cospectras) \<and>
        plot_spectras lowess good_spectras None plt_init = Inr st1 \<and>
        plot_cospectras lowess good_cospectras None st1 = Inr st2 \<and>
        final = plt_show st2)) \<and>
   (main e lowess = Inr final \<longrightarrow>
      map fst (figures final) = [1, 2] \<and> current final = Some 2 \<and> shown final \<and>
      length (lines_of final 1) = 2 \<and> length (lines_of final 2) = 3) \<and>
   (\<forall>err. get_good_files e main_folder = Inl err \<longrightarrow> main e lowess = Inl err) \<and>
   (\<forall>good_files err.
      get_good_files e main_folder = Inr good_files \<and>
      merge_good_files e good_files main_folder = Inl err \<longrightarrow> main e lowess = Inl err) \<and>
   (\<forall>good_files good_spectras good_cospectras err.
      get_good_files e main_folder = Inr good_files \<and>
      merge_good_files e good_files main_folder = Inr (good_spectras, good_cospectras) \<and>
      plot_spectras lowess good_spectras None plt_init = Inl err \<longrightarrow> main e lowess = Inl err) \<and>
   (\<forall>good_files good_spectras good_cospectras st1 err.
      get_good_files e main_folder = Inr good_files \<and>
      merge_good_files e good_files main_folder = Inr (good_spectras, good_cospectras) \<and>
      plot_spectras lowess good_spectras None plt_init = Inr st1 \<and>
      plot_cospectras lowess good_cospectras None st1 = Inl err \<longrightarrow> main e lowess = Inl err)"
proof -
  have 2: "main e lowess = Inr final \<longrightarrow>
      map fst (figures final) = [1, 2] \<and> current final = Some 2 \<and> shown final \<and>
      length (lines_of final 1) = 2 \<and> length (lines_of final 2) = 3"
  proof
    assume m: "main e lowess = Inr final"
    from main_lines[OF m] have "length (lines_of final 1) = 2 \<and> length (lines_of final 2) = 3"
      by auto
    with main_state[OF m] show "map fst (figures final) = [1, 2] \<and> current final = Some 2 \<and>
      shown final \<and> length (lines_of final 1) = 2 \<and> length (lines_of final 2) = 3"
      by simp
  qed
  have 3: "\<forall>err. get_good_files e main_folder = Inl err \<longrightarrow> main e lowess = Inl err"
    by (simp add: main_def ebind_def)
  have 4: "\<forall>good_files err.
      get_good_files e main_folder = Inr good_files \<and>
      merge_good_files e good_files main_folder = Inl err \<longrightarrow> main e lowess = Inl err"
    by (simp add: main_def ebind_def)
  have 5: "\<forall>good_files good_spectras good_cospectras err.
      get_good_files e main_folder = Inr good_files \<and>
      merge_good_files e good_files main_folder = Inr (good_spectras, good_cospectras) \<and>
      plot_spectras lowess good_spectras None plt_init = Inl err \<longrightarrow> main e lowess = Inl err"
    by (simp add: main_def ebind_def)
  have 6: "\<forall>good_files good_spectras good_cospectras st1 err.
      get_good_files e main_folder = Inr good_files \<and>
      merge_good_files e good_files main_folder = Inr (good_spectras, good_cospectras) \<and>
      plot_spectras lowess good_spectras None plt_init = Inr st1 \<and>
      plot_cospectras lowess good_cospectras None st1 = Inl err \<longrightarrow> main e lowess = Inl err"
    by (simp add: main_def ebind_def)
  show ?thesis by (intro conjI main_Inr_iff 2 3 4 5 6)
qed

theorem main_pipeline_order_witness:
  "\<not> isl (main main_env demo_lowess) \<and>
   get_good_files main_env main_folder = Inr demo_good \<and>
   merge_good_files main_env demo_good main_folder = Inr (demo_spectras, demo_cospectras) \<and>
   plot_spectras demo_lowess demo_spectras None plt_init = Inr demo_figure1 \<and>
   (\<exists>final. main main_env demo_lowess = Inr final \<and>
      map fst (figures final) = [1, 2] \<and> current final = Some 2 \<and> shown final \<and>
      length (lines_of final 1) = 2 \<and> length (lines_of final 2) = 3)"
proof -
  have run: "\<not> isl (main main_env demo_lowess)"
    by code_simp
  have g: "get_good_files main_env main_folder = Inr demo_good"
    by code_simp
  have m: "merge_good_files main_env demo_good main_folder = Inr (demo_spectras, demo_cospectras)"
    by code_simp
  have p: "plot_spectras demo_lowess demo_spectras None plt_init = Inr demo_figure1"
    by code_simp
  from run obtain final where f: "main main_env demo_lowess = Inr final"
    by (cases "main main_env demo_lowess") simp_all
  from main_pipeline_order[of main_env demo_lowess final]
  have "main main_env demo_lowess = Inr final \<longrightarrow>
      map fst (figures final) = [1, 2] \<and> current final = Some 2 \<and> shown final \<and>
      length (lines_of final 1) = 2 \<and> length (lines_of final 2) = 3"
    by (elim conjE)
  with f have "main main_env demo_lowess = Inr final \<and>
      map fst (figures final) = [1, 2] \<and> current final = Some 2 \<and> shown final \<and>
      length (lines_of final 1) = 2 \<and> length (lines_of final 2) = 3"
    by simp
  then have ex: "\<exists>final. main main_env demo_lowess = Inr final \<and>
      map fst (figures final) = [1, 2] \<and> current final = Some 2 \<and> shown final \<and>
      length (lines_of final 1) = 2 \<and> length (lines_of final 2) = 3"
    by (rule exI)
  from run g m p ex show ?thesis by (intro conjI)
qed

end
